theory Spec2Isabelle
  imports Main "HOL-Library.AList"
begin

section \<open>Values, attribute bags and document nodes\<close>

text \<open>
  Node attributes are open JavaScript objects (\<^verbatim>\<open>Record<string, any>\<close>). An object is an
  association list: the order of the keys is the order of insertion, and spreading an
  object and then setting a key (\<^verbatim>\<open>{...node.attrs, caption}\<close>) replaces the value in place
  or appends the key, which is \<open>AList.update\<close>. Reading a key that is absent gives
  \<^verbatim>\<open>undefined\<close>. Numbers are modelled as integers.
\<close>

datatype jsval = JUndefined | JNull | JBool bool | JNum int | JStr string

type_synonym jsobj = "(string \<times> jsval) list"

definition js_get :: "jsobj \<Rightarrow> string \<Rightarrow> jsval" where
  "js_get obj k = (case map_of obj k of None \<Rightarrow> JUndefined | Some v \<Rightarrow> v)"

fun js_truthy :: "jsval \<Rightarrow> bool" where
  "js_truthy JUndefined = False"
| "js_truthy JNull = False"
| "js_truthy (JBool b) = b"
| "js_truthy (JNum n) = (n \<noteq> 0)"
| "js_truthy (JStr s) = (s \<noteq> [])"

fun nullish :: "jsval \<Rightarrow> bool" where
  "nullish JUndefined = True"
| "nullish JNull = True"
| "nullish _ = False"

definition js_or :: "jsval \<Rightarrow> jsval \<Rightarrow> jsval" where
  "js_or a b = (if js_truthy a then a else b)"

text \<open>
  A ProseMirror node is a text node, a node of a type without content (size 1: images,
  hard breaks), or a node with content (size 2 + the size of its content: one opening
  and one closing token). The gallery type (content \<^verbatim>\<open>block*\<close>) and the figure type
  (content \<^verbatim>\<open>inline*\<close>) have content, so their nodes are \<open>Branch\<close> nodes. Marks are left
  out: no function below reads or changes them.
\<close>

datatype pmnode =
    Text string
  | Leaf string jsobj
  | Branch string jsobj "pmnode list"

fun type_name :: "pmnode \<Rightarrow> string" where
  "type_name (Text s) = ''text''"
| "type_name (Leaf t a) = t"
| "type_name (Branch t a cs) = t"

fun attrs :: "pmnode \<Rightarrow> jsobj" where
  "attrs (Text s) = []"
| "attrs (Leaf t a) = a"
| "attrs (Branch t a cs) = a"

fun content :: "pmnode \<Rightarrow> pmnode list" where
  "content (Text s) = []"
| "content (Leaf t a) = []"
| "content (Branch t a cs) = cs"

fun nodeSize :: "pmnode \<Rightarrow> nat" and fragmentSize :: "pmnode list \<Rightarrow> nat" where
  "nodeSize (Text s) = length s"
| "nodeSize (Leaf t a) = 1"
| "nodeSize (Branch t a cs) = 2 + fragmentSize cs"
| "fragmentSize [] = 0"
| "fragmentSize (c # cs) = nodeSize c + fragmentSize cs"

text \<open>
  \<^verbatim>\<open>doc.descendants(f)\<close> with a callback that returns nothing visits every node below the
  document in document order, handing the callback the node and the position just before
  it; the content of a node starts one position after the node. A document is given by
  the list of its top-level nodes.
\<close>

fun descendants :: "nat \<Rightarrow> pmnode list \<Rightarrow> (pmnode \<times> nat) list" where
  "descendants p [] = []"
| "descendants p (Text s # ns) = (Text s, p) # descendants (p + length s) ns"
| "descendants p (Leaf t a # ns) = (Leaf t a, p) # descendants (p + 1) ns"
| "descendants p (Branch t a cs # ns) =
     (Branch t a cs, p) # descendants (p + 1) cs @ descendants (p + 2 + fragmentSize cs) ns"

section \<open>Rendered markup\<close>

text \<open>
  The DOM that \<^verbatim>\<open>renderHTML\<close> describes. An attribute value is a string; the strings made
  by \<^verbatim>\<open>JSON.stringify\<close> are kept apart as \<open>JsonText\<close> of the object they encode, so that
  \<^verbatim>\<open>JSON.parse\<close> is the inverse reading. \<^verbatim>\<open>JSON.stringify\<close> leaves out the keys whose
  value is \<^verbatim>\<open>undefined\<close> and keeps \<^verbatim>\<open>null\<close>.
\<close>

datatype attr_value = Str string | JsonText jsobj

datatype dom =
    Element string "(string \<times> attr_value) list" "dom list"
  | TextNode string

definition JSON_stringify :: "jsobj \<Rightarrow> attr_value" where
  "JSON_stringify obj = JsonText (filter (\<lambda>kv. snd kv \<noteq> JUndefined) obj)"

text \<open>String conversion of a value that is written into a DOM attribute.\<close>

fun digits :: "nat \<Rightarrow> string" where
  "digits n =
     (if n < 10 then [char_of (48 + n)] else digits (n div 10) @ [char_of (48 + n mod 10)])"

fun js_to_string :: "jsval \<Rightarrow> string" where
  "js_to_string JUndefined = ''undefined''"
| "js_to_string JNull = ''null''"
| "js_to_string (JBool b) = (if b then ''true'' else ''false'')"
| "js_to_string (JNum n) = (if n < 0 then CHR ''-'' # digits (nat (- n)) else digits (nat n))"
| "js_to_string (JStr s) = s"

text \<open>
  The functions below take \<^verbatim>\<open>Maybe<string>\<close> arguments: a string, or \<^verbatim>\<open>null\<close> or
  \<^verbatim>\<open>undefined\<close> (here \<open>None\<close>). \<open>maybe_string\<close> reads an attribute at that type.
\<close>

fun maybe_string :: "jsval \<Rightarrow> string option" where
  "maybe_string (JStr s) = Some s"
| "maybe_string _ = None"

definition starts_with :: "string \<Rightarrow> string \<Rightarrow> bool" where
  "starts_with p s = (take (length p) s = p)"

text \<open>\<^verbatim>\<open>/^image(\/(gif|png|jpe?g)|$)/\<close>\<close>

definition isPreviewable :: "string \<Rightarrow> bool" where
  "isPreviewable s =
     (s = ''image'' \<or> starts_with ''image/gif'' s \<or> starts_with ''image/png'' s
      \<or> starts_with ''image/jpg'' s \<or> starts_with ''image/jpeg'' s)"

definition canPreview :: "bool \<Rightarrow> string option \<Rightarrow> bool" where
  "canPreview previewable contentType =
     (previewable \<or> (case contentType of None \<Rightarrow> False | Some s \<Rightarrow> isPreviewable s))"

text \<open>
  \<^verbatim>\<open>fileName.match(/\.(\w+)$/)?.[1]\<close>: the leftmost dot that is followed, up to the end
  of the string, by one or more word characters \<^verbatim>\<open>[A-Za-z0-9_]\<close>; the value is those
  characters, and \<^verbatim>\<open>undefined\<close> (here \<open>None\<close>) when there is no match.
\<close>

definition is_word_char :: "char \<Rightarrow> bool" where
  "is_word_char c =
     (let n = (of_char c :: nat)
      in (48 \<le> n \<and> n \<le> 57) \<or> (65 \<le> n \<and> n \<le> 90) \<or> n = 95 \<or> (97 \<le> n \<and> n \<le> 122))"

fun match_extension :: "string \<Rightarrow> string option" where
  "match_extension [] = None"
| "match_extension (c # cs) =
     (if c = CHR ''.'' \<and> cs \<noteq> [] \<and> list_all is_word_char cs then Some cs
      else match_extension cs)"

definition toLowerCase :: "string \<Rightarrow> string" where
  "toLowerCase s =
     map (\<lambda>c. let n = (of_char c :: nat) in if 65 \<le> n \<and> n \<le> 90 then char_of (n + 32) else c) s"

text \<open>
  In \<^verbatim>\<open>"attachment--" + fileName.match(...)?.[1].toLowerCase()\<close> the optional chain ends
  the whole member chain when there is no match, so the right operand is \<^verbatim>\<open>undefined\<close>
  and the concatenation appends the text \<^verbatim>\<open>undefined\<close>.
\<close>

definition toExtension :: "string option \<Rightarrow> string" where
  "toExtension fileName =
     (case fileName of
        None \<Rightarrow> ''''
      | Some f \<Rightarrow>
          if f = [] then ''''
          else ''attachment--'' @
            (case match_extension f of
               None \<Rightarrow> js_to_string JUndefined
             | Some e \<Rightarrow> toLowerCase e))"

definition toType :: "string option \<Rightarrow> bool \<Rightarrow> string" where
  "toType cont previewable =
     (if cont \<noteq> None \<and> cont \<noteq> Some [] then ''attachment--content''
      else if previewable then ''attachment--preview''
      else ''attachment--file'')"

subsection \<open>The figure's \<^verbatim>\<open>renderHTML\<close>\<close>

text \<open>\<^verbatim>\<open>addOptions\<close> of the figure node.\<close>

definition HTMLAttributes :: "(string \<times> attr_value) list" where
  "HTMLAttributes =
     [(''class'', Str ''attachment''),
      (''data-trix-attributes'', JSON_stringify [(''presentation'', JStr ''gallery'')])]"

definition options_class :: string where
  "options_class = ''attachment''"

text \<open>
  \<^verbatim>\<open>mergeAttributes\<close> of the editor framework: a key that is new (or whose value so far
  is empty) is set; the classes of a \<^verbatim>\<open>class\<close> key are joined with a space (later
  versions of the framework leave out a class name that is already there); any other key
  is overwritten.
\<close>

fun merge_entry :: "(string \<times> attr_value) list \<Rightarrow> string \<times> attr_value \<Rightarrow> (string \<times> attr_value) list" where
  "merge_entry items (k, v) =
     (case map_of items k of
        None \<Rightarrow> AList.update k v items
      | Some (Str []) \<Rightarrow> AList.update k v items
      | Some (Str old) \<Rightarrow>
          (case v of
             Str new \<Rightarrow> if k = ''class'' then AList.update k (Str (old @ '' '' @ new)) items
                        else AList.update k v items
           | _ \<Rightarrow> AList.update k v items)
      | Some _ \<Rightarrow> AList.update k v items)"

definition mergeAttributes ::
  "(string \<times> attr_value) list \<Rightarrow> (string \<times> attr_value) list \<Rightarrow> (string \<times> attr_value) list" where
  "mergeAttributes a b = foldl merge_entry (foldl merge_entry [] a) b"

text \<open>An attribute whose value is \<^verbatim>\<open>null\<close> or \<^verbatim>\<open>undefined\<close> is not written to the DOM.\<close>

definition dom_attr :: "string \<Rightarrow> jsval \<Rightarrow> (string \<times> attr_value) list" where
  "dom_attr k v = (if nullish v then [] else [(k, Str (js_to_string v))])"

definition figure_class :: "jsobj \<Rightarrow> string" where
  "figure_class a =
     options_class @ '' '' @
     toType (maybe_string (js_get a ''content''))
       (canPreview (js_truthy (js_get a ''previewable'')) (maybe_string (js_get a ''contentType'')))
     @ '' '' @ toExtension (maybe_string (js_get a ''fileName''))"

text \<open>
  \<^verbatim>\<open>renderHTML({ node })\<close>, with the content hole \<^verbatim>\<open>0\<close> of the figcaption filled by the
  rendering \<open>hole\<close> of the node's inline content. \<open>attachmentAttrs\<close> is the object of
  that name, and \<open>figure_attributes\<close> the merged attributes of the \<^verbatim>\<open>figure\<close> element.
\<close>

definition attachmentAttrs :: "jsobj \<Rightarrow> jsobj" where
  "attachmentAttrs a =
     [(''caption'', js_get a ''caption''),
      (''contentType'', js_get a ''contentType''),
      (''content'', js_get a ''content''),
      (''filename'', js_get a ''fileName''),
      (''filesize'', js_get a ''fileSize''),
      (''height'', js_get a ''height''),
      (''width'', js_get a ''width''),
      (''sgid'', js_get a ''sgid''),
      (''url'', js_get a ''url''),
      (''src'', js_get a ''src'')]"

definition figure_attributes :: "jsobj \<Rightarrow> (string \<times> attr_value) list" where
  "figure_attributes a =
     mergeAttributes HTMLAttributes
       ([(''class'', Str (figure_class a))]
        @ dom_attr ''data-trix-content-type'' (js_get a ''contentType'')
        @ [(''data-trix-attachment'', JSON_stringify (attachmentAttrs a)),
           (''data-trix-attributes'',
              JSON_stringify
                [(''caption'', js_get a ''caption''), (''presentation'', JStr ''gallery'')])])"

definition renderHTML :: "dom list \<Rightarrow> pmnode \<Rightarrow> dom" where
  "renderHTML hole node =
     (let a = attrs node;
          figcaption =
            Element ''figcaption''
              [(''class'', Str ''attachment__caption attachment__caption--edited'')] hole;
          image =
            Element ''img''
              (dom_attr ''src'' (js_or (js_get a ''url'') (js_get a ''src''))
               @ [(''contenteditable'', Str ''false'')]
               @ dom_attr ''width'' (js_get a ''width'')
               @ dom_attr ''height'' (js_get a ''height''))
              []
      in if \<not> js_truthy (js_get a ''content'')
         then Element ''figure'' (figure_attributes a) [image, figcaption]
         else Element ''figure'' (figure_attributes a) [figcaption])"

text \<open>
  \<^verbatim>\<open>querySelector(tag)\<close> on an element: the first element below it, in document order,
  with that tag name. \<open>query\<close> searches a list of children.
\<close>

fun query :: "string \<Rightarrow> dom list \<Rightarrow> dom option" where
  "query tag [] = None"
| "query tag (TextNode s # ds) = query tag ds"
| "query tag (Element t a cs # ds) =
     (if t = tag then Some (Element t a cs)
      else (case query tag cs of Some e \<Rightarrow> Some e | None \<Rightarrow> query tag ds))"

fun childNodes :: "dom \<Rightarrow> dom list" where
  "childNodes (Element t a cs) = cs"
| "childNodes (TextNode s) = []"

section \<open>The reconciliation pass\<close>

text \<open>
  A transaction is the list of the requests made on it, in order. \<open>ReplaceWith from to
  nodes\<close> is \<^verbatim>\<open>tr.replaceWith\<close> (\<^verbatim>\<open>tr.insert(pos, nodes)\<close> is \<open>ReplaceWith pos pos nodes\<close>);
  \<open>SetNodeMarkup pos type attrs\<close> is \<^verbatim>\<open>tr.setNodeMarkup\<close>, with \<open>None\<close> for a type that is
  \<^verbatim>\<open>undefined\<close>; \<open>SelectionToInsertionEnd startLen bias\<close> is the framework helper of that
  name called on the transaction.
\<close>

datatype tr_op =
    ReplaceWith nat nat "pmnode list"
  | SetNodeMarkup nat "string option" jsobj
  | SelectionToInsertionEnd nat int

type_synonym transaction = "tr_op list"

text \<open>\<^verbatim>\<open>newState.schema.node("paragraph", null, [])\<close>: a paragraph with no content.\<close>

definition empty_paragraph :: pmnode where
  "empty_paragraph = Branch ''paragraph'' [] []"

definition handleGallery :: "pmnode \<Rightarrow> transaction \<Rightarrow> nat \<Rightarrow> bool \<times> transaction" where
  "handleGallery node tr pos =
     (if type_name node \<noteq> ''attachment-gallery'' then (False, tr)
      else if nodeSize node = 2
      then (True, tr @ [ReplaceWith pos (pos + nodeSize node) [empty_paragraph]])
      else (False, tr))"

text \<open>
  \<open>ser\<close> is the schema's serializer on a node's content
  (\<^verbatim>\<open>DOMSerializer.fromSchema(newState.schema)\<close>, which renders the figure itself with
  \<open>renderHTML\<close>), and \<open>innerHTML\<close> the markup of a list of DOM nodes.
\<close>

definition handleCaptions ::
  "(pmnode list \<Rightarrow> dom list) \<Rightarrow> (dom list \<Rightarrow> string) \<Rightarrow> pmnode \<Rightarrow> transaction \<Rightarrow> nat
     \<Rightarrow> bool \<times> transaction" where
  "handleCaptions ser innerHTML node tr pos =
     (if type_name node \<noteq> ''attachment-figure'' then (False, tr)
      else
        let scratch = Element ''div'' [] [renderHTML (ser (content node)) node]
        in (case query ''figcaption'' (childNodes scratch) of
              None \<Rightarrow> (False, tr)
            | Some figcaption \<Rightarrow>
                let caption = innerHTML (childNodes figcaption)
                in if js_get (attrs node) ''caption'' \<noteq> JStr caption
                   then (True,
                         tr @ [SetNodeMarkup pos None
                                 (AList.update ''caption'' (JStr caption) (attrs node))])
                   else (False, tr)))"

text \<open>The callback handed to \<^verbatim>\<open>newState.doc.descendants\<close>, and \<^verbatim>\<open>appendTransaction\<close>.\<close>

definition visit ::
  "(pmnode list \<Rightarrow> dom list) \<Rightarrow> (dom list \<Rightarrow> string) \<Rightarrow> bool \<times> transaction \<Rightarrow> pmnode \<times> nat
     \<Rightarrow> bool \<times> transaction" where
  "visit ser innerHTML st np =
     (let (m1, tr1) = handleGallery (fst np) (snd st) (snd np);
          (m2, tr2) = handleCaptions ser innerHTML (fst np) tr1 (snd np);
          shouldModify = (m1 \<or> m2)
      in (if shouldModify then True else fst st, tr2))"

definition appendTransaction ::
  "(pmnode list \<Rightarrow> dom list) \<Rightarrow> (dom list \<Rightarrow> string) \<Rightarrow> pmnode list \<Rightarrow> transaction option" where
  "appendTransaction ser innerHTML doc =
     (let (modified, tr) = foldl (visit ser innerHTML) (False, []) (descendants 0 doc)
      in if modified then Some tr else None)"

section \<open>What the requests do to a document\<close>

text \<open>
  ProseMirror applies each request to the transaction's document as it is made, and
  raises when it cannot. The functions below give that effect for the requests whose
  range is a run of whole children of one node (an empty run for an insertion between
  two children), with positions counted from the start of the list of children:
  \<^item> a position outside the document, or a range that ends before it starts, raises
    \<^verbatim>\<open>RangeError\<close>;
  \<^item> a range that cuts through a node is \<open>Unsupported\<close>: ProseMirror fits such a
    replacement by splitting, joining or dropping nodes, which is not modelled;
  \<^item> an insertion of block nodes (an empty range) at a position inside a figure, a
    figure caption or a paragraph, whose content is \<^verbatim>\<open>inline*\<close>, is \<open>Unsupported\<close> too:
    ProseMirror closes or splits that node and puts the new nodes beside it;
  \<^item> \<^verbatim>\<open>setNodeMarkup\<close> raises \<^verbatim>\<open>RangeError\<close> when no node starts at the position
    (\<^verbatim>\<open>"No node at given position"\<close>), and a plain \<^verbatim>\<open>Error\<close> (\<open>PlainError\<close>) on a text
    node, which the node type refuses to create.
  Elsewhere, whether the schema allows the new nodes where they are put is not checked:
  the result is ProseMirror's where the content expression of the parent admits them (a
  paragraph in the place of a gallery, a figure among the children of a gallery or of the
  document).
  \<^verbatim>\<open>setNodeMarkup\<close> builds the new node with \<^verbatim>\<open>type.create(attrs)\<close>, which keeps of the
  given object the attributes that the node type declares. The only calls in this
  repository leave the type as it is (\<^verbatim>\<open>undefined\<close>, here \<open>None\<close>) and give the
  attributes of a figure with some values replaced: for a figure that keeps its type the
  given attributes are taken as they are. For a node of another type, or a change of
  type, the request is \<open>Unsupported\<close>: what the node is left with depends on the attributes
  that its type declares, and is not modelled.
\<close>

datatype error = RangeError | TypeError | SyntaxError | PlainError | Unsupported

definition block_node :: "pmnode \<Rightarrow> bool" where
  "block_node n =
     (type_name n = ''paragraph'' \<or> type_name n = ''attachment-gallery''
      \<or> type_name n = ''attachment-figure'' \<or> type_name n = ''attachment-figcaption''
      \<or> type_name n = ''attachment-image'')"

definition inline_content :: "string \<Rightarrow> bool" where
  "inline_content t =
     (t = ''attachment-figure'' \<or> t = ''attachment-figcaption'' \<or> t = ''paragraph'')"

definition keeps_figure :: "string option \<Rightarrow> string \<Rightarrow> bool" where
  "keeps_figure ty t = (t = ''attachment-figure'' \<and> (ty = None \<or> ty = Some t))"

definition map_result :: "('a \<Rightarrow> 'b) \<Rightarrow> error + 'a \<Rightarrow> error + 'b" where
  "map_result f r = (case r of Inl e \<Rightarrow> Inl e | Inr x \<Rightarrow> Inr (f x))"

fun replace_children :: "nat \<Rightarrow> nat \<Rightarrow> pmnode list \<Rightarrow> pmnode list \<Rightarrow> error + pmnode list" where
  "replace_children from to ins [] = (if from = 0 \<and> to = 0 then Inr ins else Inl RangeError)"
| "replace_children from to ins (Text s # cs) =
     (if from = 0 \<and> to = 0 then Inr (ins @ Text s # cs)
      else if length s \<le> from
      then map_result ((#) (Text s)) (replace_children (from - length s) (to - length s) ins cs)
      else if from = 0 \<and> length s \<le> to then replace_children 0 (to - length s) ins cs
      else Inl Unsupported)"
| "replace_children from to ins (Leaf t a # cs) =
     (if from = 0 \<and> to = 0 then Inr (ins @ Leaf t a # cs)
      else if 1 \<le> from
      then map_result ((#) (Leaf t a)) (replace_children (from - 1) (to - 1) ins cs)
      else replace_children 0 (to - 1) ins cs)"
| "replace_children from to ins (Branch t a ks # cs) =
     (if from = 0 \<and> to = 0 then Inr (ins @ Branch t a ks # cs)
      else if 2 + fragmentSize ks \<le> from
      then map_result ((#) (Branch t a ks))
             (replace_children (from - (2 + fragmentSize ks)) (to - (2 + fragmentSize ks)) ins cs)
      else if from = 0
      then (if 2 + fragmentSize ks \<le> to
            then replace_children 0 (to - (2 + fragmentSize ks)) ins cs
            else Inl Unsupported)
      else if to < 2 + fragmentSize ks
      then (if from = to \<and> inline_content t \<and> list_ex block_node ins then Inl Unsupported
            else map_result (\<lambda>ks'. Branch t a ks' # cs)
                   (replace_children (from - 1) (to - 1) ins ks))
      else Inl Unsupported)"

fun set_markup :: "nat \<Rightarrow> string option \<Rightarrow> jsobj \<Rightarrow> pmnode list \<Rightarrow> error + pmnode list" where
  "set_markup pos ty a [] = Inl RangeError"
| "set_markup pos ty a (Text s # cs) =
     (if length s \<le> pos
      then map_result ((#) (Text s)) (set_markup (pos - length s) ty a cs)
      else Inl PlainError)"
| "set_markup pos ty a (Leaf t b # cs) =
     (if 1 \<le> pos then map_result ((#) (Leaf t b)) (set_markup (pos - 1) ty a cs)
      else if keeps_figure ty t then Inr (Leaf t a # cs)
      else Inl Unsupported)"
| "set_markup pos ty a (Branch t b ks # cs) =
     (if 2 + fragmentSize ks \<le> pos
      then map_result ((#) (Branch t b ks)) (set_markup (pos - (2 + fragmentSize ks)) ty a cs)
      else if pos = 0
      then (if keeps_figure ty t then Inr (Branch t a ks # cs) else Inl Unsupported)
      else map_result (\<lambda>ks'. Branch t b ks' # cs) (set_markup (pos - 1) ty a ks))"

fun apply_op :: "tr_op \<Rightarrow> pmnode list \<Rightarrow> error + pmnode list" where
  "apply_op (ReplaceWith from to ns) doc =
     (if to < from \<or> fragmentSize doc < to then Inl RangeError
      else replace_children from to ns doc)"
| "apply_op (SetNodeMarkup pos ty a) doc = set_markup pos ty a doc"
| "apply_op (SelectionToInsertionEnd n b) doc = Inr doc"

fun run :: "transaction \<Rightarrow> pmnode list \<Rightarrow> error + pmnode list" where
  "run [] doc = Inr doc"
| "run (x # xs) doc = (case apply_op x doc of Inl e \<Rightarrow> Inl e | Inr doc' \<Rightarrow> run xs doc')"

text \<open>
  For the proofs: the requests that the two checks add for one node, and the state the
  pass leaves, written by recursion on the tree (an empty gallery becomes an empty
  paragraph, a figure gets the caption markup of its own content, and every other node
  keeps its type and attributes).
\<close>

definition node_ops ::
  "(pmnode list \<Rightarrow> dom list) \<Rightarrow> (dom list \<Rightarrow> string) \<Rightarrow> pmnode \<Rightarrow> nat \<Rightarrow> transaction" where
  "node_ops ser innerHTML node pos =
     snd (handleCaptions ser innerHTML node (snd (handleGallery node [] pos)) pos)"

definition synced_attrs ::
  "(pmnode list \<Rightarrow> dom list) \<Rightarrow> (dom list \<Rightarrow> string) \<Rightarrow> pmnode \<Rightarrow> jsobj" where
  "synced_attrs ser innerHTML node =
     (if type_name node = ''attachment-figure''
      then AList.update ''caption'' (JStr (innerHTML (ser (content node)))) (attrs node)
      else attrs node)"

fun reconciled ::
  "(pmnode list \<Rightarrow> dom list) \<Rightarrow> (dom list \<Rightarrow> string) \<Rightarrow> pmnode \<Rightarrow> pmnode" where
  "reconciled ser innerHTML (Text s) = Text s"
| "reconciled ser innerHTML (Leaf t a) = Leaf t (synced_attrs ser innerHTML (Leaf t a))"
| "reconciled ser innerHTML (Branch t a cs) =
     (if t = ''attachment-gallery'' \<and> fragmentSize cs = 0 then empty_paragraph
      else Branch t (synced_attrs ser innerHTML (Branch t a cs))
             (map (reconciled ser innerHTML) cs))"

subsection \<open>The committed state\<close>

text \<open>
  The state that is committed: the transaction's document after the requests of the pass,
  or the document itself when the pass returns no transaction.
\<close>

definition commit ::
  "(pmnode list \<Rightarrow> dom list) \<Rightarrow> (dom list \<Rightarrow> string) \<Rightarrow> pmnode list \<Rightarrow> error + pmnode list" where
  "commit ser innerHTML doc =
     (case appendTransaction ser innerHTML doc of None \<Rightarrow> Inr doc | Some tr \<Rightarrow> run tr doc)"

text \<open>A gallery node with zero children.\<close>

fun empty_gallery :: "pmnode \<Rightarrow> bool" where
  "empty_gallery (Branch t a cs) = (t = ''attachment-gallery'' \<and> cs = [])"
| "empty_gallery _ = False"

text \<open>
  The schema gives a figure the content \<^verbatim>\<open>inline*\<close>, and puts galleries and figures in
  the group \<^verbatim>\<open>block\<close>: below a figure there is no gallery and no figure.
\<close>

fun inline_node :: "pmnode \<Rightarrow> bool" where
  "inline_node (Text s) = True"
| "inline_node (Leaf t a) = (t \<noteq> ''attachment-gallery'' \<and> t \<noteq> ''attachment-figure'')"
| "inline_node (Branch t a cs) =
     (t \<noteq> ''attachment-gallery'' \<and> t \<noteq> ''attachment-figure'' \<and> (\<forall>c\<in>set cs. inline_node c))"

fun figure_content_inline :: "pmnode \<Rightarrow> bool" where
  "figure_content_inline (Text s) = True"
| "figure_content_inline (Leaf t a) = True"
| "figure_content_inline (Branch t a cs) =
     (if t = ''attachment-figure'' then (\<forall>c\<in>set cs. inline_node c)
      else (\<forall>c\<in>set cs. figure_content_inline c))"

text \<open>
  Auxiliary notions for the proofs: the requests of the pass for the nodes of a list of
  children that starts at position \<open>p\<close>; a request moved by \<open>k\<close> positions; a request
  that stays inside a list of children of size \<open>n\<close> and keeps that size.
\<close>

definition ops_at ::
  "(pmnode list \<Rightarrow> dom list) \<Rightarrow> (dom list \<Rightarrow> string) \<Rightarrow> nat \<Rightarrow> pmnode list \<Rightarrow> transaction" where
  "ops_at ser innerHTML p ns =
     concat (map (\<lambda>np. node_ops ser innerHTML (fst np) (snd np)) (descendants p ns))"

fun shift :: "nat \<Rightarrow> tr_op \<Rightarrow> tr_op" where
  "shift k (ReplaceWith f t ns) = ReplaceWith (f + k) (t + k) ns"
| "shift k (SetNodeMarkup p ty a) = SetNodeMarkup (p + k) ty a"
| "shift k (SelectionToInsertionEnd n b) = SelectionToInsertionEnd n b"

fun neutral :: "nat \<Rightarrow> tr_op \<Rightarrow> bool" where
  "neutral n (ReplaceWith f t ns) = (f < t \<and> t \<le> n \<and> fragmentSize ns = t - f)"
| "neutral n (SetNodeMarkup p ty a) = (p \<le> n)"
| "neutral n (SelectionToInsertionEnd k b) = True"

section \<open>The insertion command\<close>

text \<open>
  \<^verbatim>\<open>doc.resolve(pos)\<close> raises \<^verbatim>\<open>RangeError\<close> for a position outside the document. Of the
  resolved position the command reads the ancestors: \<open>ancestors start off cs\<close> lists, from
  depth 1 downwards, the nodes that strictly enclose offset \<open>off\<close> of the children \<open>cs\<close>,
  each with the position where its content starts. A position at the boundary of a child
  is not inside it, and a text node is never entered.
\<close>

fun ancestors :: "nat \<Rightarrow> nat \<Rightarrow> pmnode list \<Rightarrow> (pmnode \<times> nat) list" where
  "ancestors start off [] = []"
| "ancestors start off (Text s # cs) =
     (if length s \<le> off then ancestors (start + length s) (off - length s) cs else [])"
| "ancestors start off (Leaf t a # cs) =
     (if 1 \<le> off then ancestors (start + 1) (off - 1) cs else [])"
| "ancestors start off (Branch t a ks # cs) =
     (if 2 + fragmentSize ks \<le> off
      then ancestors (start + (2 + fragmentSize ks)) (off - (2 + fragmentSize ks)) cs
      else if off = 0 then []
      else (Branch t a ks, start + 1) # ancestors (start + 1) (off - 1) ks)"

definition resolve :: "pmnode list \<Rightarrow> int \<Rightarrow> error + (pmnode \<times> nat) list" where
  "resolve doc pos =
     (if pos < 0 \<or> int (fragmentSize doc) < pos then Inl RangeError
      else Inr (ancestors 0 (nat pos) doc))"

text \<open>
  \<^verbatim>\<open>$pos.node(1)\<close> is the ancestor at depth 1, \<^verbatim>\<open>undefined\<close> (here \<open>None\<close>) at depth 0;
  \<^verbatim>\<open>$pos.end()\<close> is the end of the content of the innermost ancestor, and of the document
  at depth 0.
\<close>

definition node1 :: "(pmnode \<times> nat) list \<Rightarrow> pmnode option" where
  "node1 path = (case path of [] \<Rightarrow> None | (n, s) # rest \<Rightarrow> Some n)"

definition end_of :: "pmnode list \<Rightarrow> (pmnode \<times> nat) list \<Rightarrow> nat" where
  "end_of doc path =
     (case path of [] \<Rightarrow> fragmentSize doc
      | _ \<Rightarrow> snd (last path) + fragmentSize (content (fst (last path))))"

text \<open>
  The selection with its anchor and head (\<^verbatim>\<open>from\<close> is the smaller and \<^verbatim>\<open>to\<close> the larger of
  the two), and the editor state: the document, the selection and the names of the node
  types of the schema.
\<close>

record selection =
  sel_anchor :: int
  sel_head :: int

definition sel_from :: "selection \<Rightarrow> int" where
  "sel_from s = min (sel_anchor s) (sel_head s)"

definition sel_to :: "selection \<Rightarrow> int" where
  "sel_to s = max (sel_anchor s) (sel_head s)"

record editor_state =
  state_doc :: "pmnode list"
  state_selection :: selection
  schema_nodes :: "string list"

text \<open>
  \<^verbatim>\<open>addAttributes\<close> of the figure: the attributes and their defaults. \<^verbatim>\<open>type.create(attrs)\<close>
  takes, for each attribute of the type, the given value, or the default when the given
  value is \<^verbatim>\<open>undefined\<close>.
\<close>

definition figure_defaults :: jsobj where
  "figure_defaults =
     [(''attachmentId'', JNull),
      (''caption'', JStr ''''),
      (''progress'', JNum 100),
      (''sgid'', JStr ''''),
      (''src'', JStr ''''),
      (''height'', JStr ''''),
      (''width'', JStr ''''),
      (''contentType'', JStr ''''),
      (''fileName'', JStr ''''),
      (''fileSize'', JStr ''''),
      (''content'', JStr ''''),
      (''url'', JStr ''''),
      (''previewable'', JBool False)]"

definition computeAttrs :: "jsobj \<Rightarrow> jsobj \<Rightarrow> jsobj" where
  "computeAttrs defaults given =
     map (\<lambda>kd. (fst kd, if js_get given (fst kd) = JUndefined then snd kd
                         else js_get given (fst kd))) defaults"

text \<open>
  The figure node built from one attachment:
  \<^verbatim>\<open>schema.nodes["attachment-figure"].create(attachment, attachment.caption ? [schema.text(attachment.caption)] : [])\<close>.
\<close>

definition create_figure :: "jsobj \<Rightarrow> pmnode" where
  "create_figure attachment =
     Branch ''attachment-figure'' (computeAttrs figure_defaults attachment)
       (if js_truthy (js_get attachment ''caption'')
        then [Text (js_to_string (js_get attachment ''caption''))] else [])"

text \<open>
  \<^verbatim>\<open>tr.replaceWith(from, to, nodes)\<close> and \<^verbatim>\<open>tr.insert(pos, nodes)\<close> resolve their positions
  in the document, which raises \<^verbatim>\<open>RangeError\<close> outside it, and the request is recorded.
  The transaction handed to the command is on the document of the state.
\<close>

definition tr_replaceWith ::
  "pmnode list \<Rightarrow> int \<Rightarrow> int \<Rightarrow> pmnode list \<Rightarrow> transaction \<Rightarrow> error + transaction" where
  "tr_replaceWith d from to nodes tr =
     (if from < 0 \<or> to < 0 \<or> int (fragmentSize d) < from \<or> int (fragmentSize d) < to
      then Inl RangeError
      else Inr (tr @ [ReplaceWith (nat from) (nat to) nodes]))"

definition tr_insert ::
  "pmnode list \<Rightarrow> int \<Rightarrow> pmnode list \<Rightarrow> transaction \<Rightarrow> error + transaction" where
  "tr_insert d pos nodes tr = tr_replaceWith d pos pos nodes tr"

fun is_step :: "tr_op \<Rightarrow> bool" where
  "is_step (SelectionToInsertionEnd n b) = False"
| "is_step _ = True"

text \<open>
  What a call of the command comes to: it returns a value or throws; \<open>result_tr\<close> is the
  transaction afterwards, and \<open>dispatched\<close> the transaction handed to \<^verbatim>\<open>dispatch\<close>, if any.
\<close>

datatype outcome = Returned bool | Threw error

record command_result =
  outcome :: outcome
  result_tr :: transaction
  dispatched :: "transaction option"

text \<open>
  \<^verbatim>\<open>setAttachment(options)({ state, tr, dispatch })\<close>. \<open>options\<close> is the list of
  attachments (a single attachment is made a list of one by the command), and
  \<open>dispatch\<close> tells whether a dispatch function was given.
\<close>

definition setAttachment ::
  "editor_state \<Rightarrow> transaction \<Rightarrow> jsobj list \<Rightarrow> bool \<Rightarrow> command_result" where
  "setAttachment state tr0 options dispatch =
     (let throw = (\<lambda>e. \<lparr>outcome = Threw e, result_tr = tr0, dispatched = None\<rparr>);
          finish = (\<lambda>tr'. \<lparr>outcome = Returned True, result_tr = tr',
                           dispatched = (if dispatch then Some tr' else None)\<rparr>);
          anchor = sel_anchor (state_selection state)
      in case resolve (state_doc state) anchor of
           Inl e \<Rightarrow> throw e
         | Inr currentSelection \<Rightarrow>
      let beforePos = (if anchor - 2 < 0 then 0 else anchor - 2)
      in case resolve (state_doc state) beforePos of
           Inl e \<Rightarrow> throw e
         | Inr nodeBefore \<Rightarrow>
      (case node1 currentSelection of
         None \<Rightarrow> throw TypeError
       | Some current \<Rightarrow>
      let isInGalleryCurrent = (type_name current = ''attachment-gallery'');
          isInGalleryAfter =
            (case node1 nodeBefore of None \<Rightarrow> False
             | Some b \<Rightarrow> type_name b = ''attachment-gallery'');
          isInGallery = (isInGalleryCurrent \<or> isInGalleryAfter)
      in if options \<noteq> [] \<and> ''attachment-figure'' \<notin> set (schema_nodes state)
         then throw TypeError
         else
      let attachmentNodes = map create_figure options
      in if isInGallery
         then
           let end_pos = int (end_of (state_doc state) currentSelection);
               backtrack = (if isInGalleryCurrent then 0 else 2)
           in (case tr_insert (state_doc state) (end_pos - backtrack) attachmentNodes tr0 of
                 Inl e \<Rightarrow> throw e
               | Inr tr1 \<Rightarrow> finish tr1)
         else if ''attachment-gallery'' \<notin> set (schema_nodes state) then throw TypeError
         else
           let gallery = Branch ''attachment-gallery'' [] attachmentNodes;
               currSelection = state_selection state
           in if ''paragraph'' \<notin> set (schema_nodes state) then throw TypeError
              else
                (case tr_replaceWith (state_doc state) (sel_from currSelection - 1) (sel_to currSelection)
                        [empty_paragraph, gallery, empty_paragraph] tr0 of
                   Inl e \<Rightarrow> throw e
                 | Inr tr1 \<Rightarrow>
                     finish (tr1 @ [SelectionToInsertionEnd (length (filter is_step tr1) - 1) (- 1)]))))"

text \<open>
  The two contexts the command looks at: the depth-1 ancestor of the selection anchor, and
  the depth-1 ancestor of the position two before the anchor (not below 0). A position
  outside the document or at depth 0 has none.
\<close>

definition context_at :: "pmnode list \<Rightarrow> int \<Rightarrow> pmnode option" where
  "context_at d pos = (case resolve d pos of Inl e \<Rightarrow> None | Inr path \<Rightarrow> node1 path)"

definition two_before :: "int \<Rightarrow> int" where
  "two_before a = (if a - 2 < 0 then 0 else a - 2)"

definition is_gallery :: "pmnode option \<Rightarrow> bool" where
  "is_gallery c = (case c of None \<Rightarrow> False | Some n \<Rightarrow> type_name n = ''attachment-gallery'')"

text \<open>The two kinds of result of the command.\<close>

definition thrown :: "transaction \<Rightarrow> error \<Rightarrow> command_result" where
  "thrown tr0 e = \<lparr>outcome = Threw e, result_tr = tr0, dispatched = None\<rparr>"

definition returned_true :: "bool \<Rightarrow> transaction \<Rightarrow> command_result" where
  "returned_true dispatch tr' =
     \<lparr>outcome = Returned True, result_tr = tr',
      dispatched = (if dispatch then Some tr' else None)\<rparr>"

section \<open>Parsing a figure element\<close>

text \<open>
  The attribute parsers of \<^verbatim>\<open>addAttributes\<close> get the element; \<^verbatim>\<open>closest\<close> looks at the
  element and then at its ancestors, nearest first, which are given as the list
  \<open>parents\<close>. \<^verbatim>\<open>JSON.parse\<close> reads the object back from a string made by
  \<^verbatim>\<open>JSON.stringify\<close> and raises \<^verbatim>\<open>SyntaxError\<close> on any other string (a plain string is
  taken not to be JSON text; the empty string never is). The parsers are given the element
  as a DOM tree; writing the tree as an HTML string and reading it back is taken to give
  the same tree.
\<close>

fun getAttribute :: "dom \<Rightarrow> string \<Rightarrow> attr_value option" where
  "getAttribute (Element t a cs) k = map_of a k"
| "getAttribute (TextNode s) k = None"

fun has_tag :: "string \<Rightarrow> dom \<Rightarrow> bool" where
  "has_tag tag (Element t a cs) = (t = tag)"
| "has_tag tag (TextNode s) = False"

definition closest :: "(dom \<Rightarrow> bool) \<Rightarrow> dom \<Rightarrow> dom list \<Rightarrow> dom option" where
  "closest P element parents = List.find P (element # parents)"

fun JSON_parse :: "attr_value \<Rightarrow> error + jsobj" where
  "JSON_parse (JsonText obj) = Inr obj"
| "JSON_parse (Str s) = Inl SyntaxError"

definition bind_result :: "error + 'a \<Rightarrow> ('a \<Rightarrow> error + 'b) \<Rightarrow> error + 'b" where
  "bind_result r f = (case r of Inl e \<Rightarrow> Inl e | Inr x \<Rightarrow> f x)"

text \<open>
  \<^verbatim>\<open>findAttribute(element, attribute)\<close>. The attribute of an enclosing
  \<^verbatim>\<open>action-text-attachment\<close> is read as a plain string. Without it, the attribute is the
  key of that name in the JSON of the nearest \<^verbatim>\<open>figure[data-trix-attachment]\<close>, and
  \<^verbatim>\<open>null\<close> when there is no such figure or its attribute is empty.
\<close>

definition plain_attribute :: "dom \<Rightarrow> string \<Rightarrow> string option" where
  "plain_attribute e k = (case getAttribute e k of Some (Str s) \<Rightarrow> Some s | _ \<Rightarrow> None)"

definition trix_figure :: "dom \<Rightarrow> bool" where
  "trix_figure e = (has_tag ''figure'' e \<and> getAttribute e ''data-trix-attachment'' \<noteq> None)"

definition findAttribute :: "dom \<Rightarrow> dom list \<Rightarrow> string \<Rightarrow> error + jsval" where
  "findAttribute element parents attribute =
     (let attr =
            (case closest (has_tag ''action-text-attachment'') element parents of
               None \<Rightarrow> None
             | Some e \<Rightarrow> plain_attribute e attribute);
          attrs =
            (case closest trix_figure element parents of
               None \<Rightarrow> None
             | Some e \<Rightarrow> getAttribute e ''data-trix-attachment'')
      in case attr of
           Some (c # s) \<Rightarrow> Inr (JStr (c # s))
         | _ \<Rightarrow>
           (case attrs of
              None \<Rightarrow> Inr JNull
            | Some v \<Rightarrow>
                if v = Str [] then Inr JNull
                else bind_result (JSON_parse v) (\<lambda>obj. Inr (js_get obj attribute))))"

text \<open>The parsers, by attribute. \<open>innerHTML\<close> is the markup of a list of DOM nodes.\<close>

definition parse_caption :: "(dom list \<Rightarrow> string) \<Rightarrow> dom \<Rightarrow> dom list \<Rightarrow> error + jsval" where
  "parse_caption innerHTML element parents =
     (case query ''figcaption'' (childNodes element) of
        None \<Rightarrow> findAttribute element parents ''caption''
      | Some figcaption \<Rightarrow>
          if innerHTML (childNodes figcaption) \<noteq> []
          then Inr (JStr (innerHTML (childNodes figcaption)))
          else findAttribute element parents ''caption'')"

definition attribute_or :: "dom \<Rightarrow> string \<Rightarrow> attr_value \<Rightarrow> attr_value" where
  "attribute_or element k fallback =
     (case getAttribute element k of
        None \<Rightarrow> fallback
      | Some v \<Rightarrow> if v = Str [] then fallback else v)"

definition parse_contentType :: "dom \<Rightarrow> dom list \<Rightarrow> error + jsval" where
  "parse_contentType element parents =
     bind_result (findAttribute element parents ''content-type'') (\<lambda>v1.
       if js_truthy v1 then Inr v1
       else bind_result (JSON_parse (attribute_or element ''data-trix-attachment'' (Str [])))
              (\<lambda>obj. if js_truthy (js_get obj ''contentType'') then Inr (js_get obj ''contentType'')
                      else Inr (JStr ''application/octet-stream'')))"

definition parse_content :: "(dom list \<Rightarrow> string) \<Rightarrow> dom \<Rightarrow> dom list \<Rightarrow> error + jsval" where
  "parse_content innerHTML element parents =
     bind_result (findAttribute element parents ''content'') (\<lambda>v.
       if js_truthy v then Inr v
       else (case closest (has_tag ''action-text-attachment'') element parents of
               None \<Rightarrow> Inr (JStr [])
             | Some e \<Rightarrow> Inr (JStr (innerHTML (childNodes e)))))"

definition parse_previewable :: "dom \<Rightarrow> error + jsval" where
  "parse_previewable element =
     bind_result (JSON_parse (attribute_or element ''data-trix-attachment'' (JsonText [])))
       (\<lambda>obj. Inr (js_get obj ''previewable''))"

text \<open>
  An attribute without a parser of its own (\<^verbatim>\<open>attachmentId\<close>, \<^verbatim>\<open>progress\<close>) is read by the
  framework from the element's attribute of the same name: \<^verbatim>\<open>null\<close> when the element has
  none, as is the case for every element that \<^verbatim>\<open>renderHTML\<close> makes.
\<close>

definition own_attribute :: "dom \<Rightarrow> string \<Rightarrow> error + jsval" where
  "own_attribute element k =
     (case plain_attribute element k of None \<Rightarrow> Inr JNull | Some s \<Rightarrow> Inr (JStr s))"

text \<open>
  The framework calls the parsers in the order of \<^verbatim>\<open>addAttributes\<close> and gives an
  attribute its default when the parser returns \<^verbatim>\<open>null\<close> or \<^verbatim>\<open>undefined\<close>.
\<close>

fun parse_all :: "(string \<times> jsval \<times> (error + jsval)) list \<Rightarrow> error + jsobj" where
  "parse_all [] = Inr []"
| "parse_all ((k, d, r) # rest) =
     bind_result r (\<lambda>v. map_result ((#) (k, if nullish v then d else v)) (parse_all rest))"

definition parseHTML_attrs :: "(dom list \<Rightarrow> string) \<Rightarrow> dom \<Rightarrow> dom list \<Rightarrow> error + jsobj" where
  "parseHTML_attrs innerHTML element parents =
     parse_all
       [(''attachmentId'', JNull, own_attribute element ''attachmentId''),
        (''caption'', JStr '''', parse_caption innerHTML element parents),
        (''progress'', JNum 100, own_attribute element ''progress''),
        (''sgid'', JStr '''', findAttribute element parents ''sgid''),
        (''src'', JStr '''', findAttribute element parents ''src''),
        (''height'', JStr '''', findAttribute element parents ''height''),
        (''width'', JStr '''', findAttribute element parents ''width''),
        (''contentType'', JStr '''', parse_contentType element parents),
        (''fileName'', JStr '''', findAttribute element parents ''filename''),
        (''fileSize'', JStr '''', findAttribute element parents ''filesize''),
        (''content'', JStr '''', parse_content innerHTML element parents),
        (''url'', JStr '''', findAttribute element parents ''url''),
        (''previewable'', JBool False, parse_previewable element)]"

text \<open>The value the framework keeps for a parsed attribute.\<close>

definition or_default :: "jsval \<Rightarrow> jsval \<Rightarrow> jsval" where
  "or_default d v = (if nullish v then d else v)"

section \<open>The write-back of detected image dimensions\<close>






section \<open>Sample inputs\<close>

text \<open>
  A serializer and an \<^verbatim>\<open>innerHTML\<close> for captions that hold plain text, and small
  documents, to evaluate the definitions on.
\<close>

definition text_ser :: "pmnode list \<Rightarrow> dom list" where
  "text_ser ns = concat (map (\<lambda>n. case n of Text s \<Rightarrow> [TextNode s] | _ \<Rightarrow> []) ns)"

definition text_markup :: "dom list \<Rightarrow> string" where
  "text_markup ds = concat (map (\<lambda>d. case d of TextNode s \<Rightarrow> s | _ \<Rightarrow> []) ds)"

definition doc_empty_gallery :: "pmnode list" where
  "doc_empty_gallery =
     [Branch ''attachment-gallery'' [] [], Branch ''paragraph'' [] [Text ''hi'']]"

definition stale_figure :: pmnode where
  "stale_figure =
     Branch ''attachment-figure'' [(''caption'', JStr ''old''), (''url'', JStr ''a.png'')]
       [Text ''new'']"

definition doc_stale_caption :: "pmnode list" where
  "doc_stale_caption = [Branch ''attachment-gallery'' [] [stale_figure]]"

definition sample_schema :: "string list" where
  "sample_schema =
     [''doc'', ''text'', ''paragraph'', ''blockquote'', ''horizontalRule'',
      ''attachment-gallery'', ''attachment-figure'']"

definition sample_attachment :: jsobj where
  "sample_attachment = [(''url'', JStr ''u.png'')]"

definition plain_figure :: pmnode where
  "plain_figure = Branch ''attachment-figure'' figure_defaults []"

text \<open>A gallery with one figure, followed by a paragraph with the text \<^verbatim>\<open>a\<close>.\<close>

definition doc_gallery_then_text :: "pmnode list" where
  "doc_gallery_then_text =
     [Branch ''attachment-gallery'' [] [plain_figure], Branch ''paragraph'' [] [Text ''a'']]"

text \<open>The text cursor at the start of that paragraph (position 5).\<close>

definition state_after_gallery :: editor_state where
  "state_after_gallery =
     \<lparr>state_doc = doc_gallery_then_text,
      state_selection = \<lparr>sel_anchor = 5, sel_head = 5\<rparr>,
      schema_nodes = sample_schema\<rparr>"

text \<open>The same gallery followed by an empty paragraph, with the cursor in it.\<close>

definition state_after_gallery_empty :: editor_state where
  "state_after_gallery_empty =
     \<lparr>state_doc = [Branch ''attachment-gallery'' [] [plain_figure], Branch ''paragraph'' [] []],
      state_selection = \<lparr>sel_anchor = 5, sel_head = 5\<rparr>,
      schema_nodes = sample_schema\<rparr>"

text \<open>
  A block quote holding a horizontal rule and a paragraph, with the paragraph selected as
  a node (positions 2 to 5).
\<close>

definition state_node_selected :: editor_state where
  "state_node_selected =
     \<lparr>state_doc =
        [Branch ''blockquote'' []
           [Leaf ''horizontalRule'' [], Branch ''paragraph'' [] [Text ''x'']]],
      state_selection = \<lparr>sel_anchor = 2, sel_head = 5\<rparr>,
      schema_nodes = sample_schema\<rparr>"

text \<open>The cursor in an empty paragraph, under a schema without the gallery type.\<close>

definition state_no_gallery_type :: editor_state where
  "state_no_gallery_type =
     \<lparr>state_doc = [Branch ''paragraph'' [] []],
      state_selection = \<lparr>sel_anchor = 1, sel_head = 1\<rparr>,
      schema_nodes = [''doc'', ''text'', ''paragraph'', ''attachment-figure'']\<rparr>"

text \<open>The whole document selected: the anchor is position 0.\<close>

definition state_all_selected :: editor_state where
  "state_all_selected =
     \<lparr>state_doc = doc_gallery_then_text,
      state_selection = \<lparr>sel_anchor = 0, sel_head = 7\<rparr>,
      schema_nodes = sample_schema\<rparr>"





text \<open>A figure with the default attributes, but no file name (\<^verbatim>\<open>null\<close>).\<close>

definition unnamed_figure :: pmnode where
  "unnamed_figure =
     Branch ''attachment-figure'' (AList.update ''fileName'' JNull figure_defaults) []"

text \<open>A figure whose attributes and caption content agree.\<close>

definition image_figure :: pmnode where
  "image_figure =
     Branch ''attachment-figure''
       [(''caption'', JStr ''new''), (''contentType'', JStr ''image/png''),
        (''fileName'', JStr ''a.png''), (''fileSize'', JNum 12), (''width'', JNum 3),
        (''height'', JNum 4), (''url'', JStr ''/a.png''), (''src'', JStr ''data:''),
        (''sgid'', JStr ''s1'')]
       [Text ''new'']"

text \<open>The cursor in an empty paragraph, under a schema without the figure type.\<close>

definition state_no_figure_type :: editor_state where
  "state_no_figure_type =
     \<lparr>state_doc = [Branch ''paragraph'' [] []],
      state_selection = \<lparr>sel_anchor = 1, sel_head = 1\<rparr>,
      schema_nodes = [''doc'', ''text'', ''paragraph'']\<rparr>"

section \<open>Proofs: the reconciliation pass\<close>

lemma figcaption_found:
  "query ''figcaption'' (childNodes (Element ''div'' [] [renderHTML hole node])) =
     Some (Element ''figcaption''
        [(''class'', Str ''attachment__caption attachment__caption--edited'')] hole)"
  by (simp add: renderHTML_def Let_def)

lemma handleCaptions_eq:
  "handleCaptions ser ih node tr pos =
     (if type_name node = ''attachment-figure'' \<and> js_get (attrs node) ''caption'' \<noteq> JStr (ih (ser (content node)))
      then (True, tr @ [SetNodeMarkup pos None (synced_attrs ser ih node)])
      else (False, tr))"
  unfolding handleCaptions_def Let_def figcaption_found synced_attrs_def by simp

lemma node_ops_eq:
  "node_ops ser ih node pos =
     (if type_name node = ''attachment-gallery'' \<and> nodeSize node = 2
      then [ReplaceWith pos (pos + 2) [empty_paragraph]]
      else if type_name node = ''attachment-figure'' \<and> js_get (attrs node) ''caption'' \<noteq> JStr (ih (ser (content node)))
      then [SetNodeMarkup pos None (synced_attrs ser ih node)]
      else [])"
  by (simp add: node_ops_def handleCaptions_eq handleGallery_def)

lemma visit_eq:
  "visit ser ih st np = (fst st \<or> node_ops ser ih (fst np) (snd np) \<noteq> [], snd st @ node_ops ser ih (fst np) (snd np))"
  by (cases st) (simp add: visit_def node_ops_eq handleCaptions_eq handleGallery_def)

lemma foldl_visit:
  "foldl (visit ser ih) st xs =
     (fst st \<or> concat (map (\<lambda>np. node_ops ser ih (fst np) (snd np)) xs) \<noteq> [],
      snd st @ concat (map (\<lambda>np. node_ops ser ih (fst np) (snd np)) xs))"
  by (induction xs arbitrary: st) (auto simp: visit_eq)

lemma appendTransaction_eq:
  "appendTransaction ser ih doc =
     (if ops_at ser ih 0 doc = [] then None else Some (ops_at ser ih 0 doc))"
  by (simp add: appendTransaction_def foldl_visit ops_at_def)

lemma descendants_shift:
  "descendants (p + q) ns = map (\<lambda>np. (fst np, snd np + q)) (descendants p ns)"
  by (induction p ns arbitrary: q rule: descendants.induct) (simp_all add: add.assoc add.commute add.left_commute)

lemma node_ops_shift: "node_ops ser ih n (p + k) = map (shift k) (node_ops ser ih n p)"
  by (simp add: node_ops_eq)

lemma ops_at_shift: "ops_at ser ih (p + k) ns = map (shift k) (ops_at ser ih p ns)"
  unfolding ops_at_def descendants_shift [of p k]
  by (simp add: map_concat comp_def node_ops_shift)

lemma ops_at_Nil: "ops_at ser ih p [] = []"
  by (simp add: ops_at_def)

lemma nodeSize_content: "nodeSize c = (case c of Text s \<Rightarrow> length s | Leaf t a \<Rightarrow> 1 | Branch t a ks \<Rightarrow> 2 + fragmentSize ks)"
  by (cases c) simp_all

lemma ops_at_Cons:
  "ops_at ser ih 0 (c # cs) =
     node_ops ser ih c 0 @ map (shift 1) (ops_at ser ih 0 (content c))
       @ map (shift (nodeSize c)) (ops_at ser ih 0 cs)"
proof (cases c)
  case (Text s)
  then show ?thesis
    using ops_at_shift [of ser ih 0 "length s" cs] by (simp add: ops_at_def)
next
  case (Leaf t a)
  then show ?thesis
    using ops_at_shift [of ser ih 0 1 cs] by (simp add: ops_at_def)
next
  case (Branch t a ks)
  then show ?thesis
    using ops_at_shift [of ser ih 0 "2 + fragmentSize ks" cs] ops_at_shift [of ser ih 0 1 ks]
    by (simp add: ops_at_def)
qed

lemma fragmentSize_append: "fragmentSize (xs @ ys) = fragmentSize xs + fragmentSize ys"
  by (induction xs) simp_all

lemma run_append:
  "run (xs @ ys) doc = (case run xs doc of Inl e \<Rightarrow> Inl e | Inr doc' \<Rightarrow> run ys doc')"
  by (induction xs arbitrary: doc) (auto split: sum.splits)

lemma map_result_simps [simp]:
  "map_result f (Inl e) = Inl e" "map_result f (Inr x) = Inr (f x)"
  by (simp_all add: map_result_def)

lemma map_result_Inr: "map_result f r = Inr y \<longleftrightarrow> (\<exists>x. r = Inr x \<and> y = f x)"
  by (cases r) auto

lemma replace_children_size:
  "replace_children f t ins doc = Inr doc' \<Longrightarrow> f \<le> t \<Longrightarrow> t \<le> fragmentSize doc \<Longrightarrow>
     fragmentSize doc' + t = fragmentSize doc + fragmentSize ins + f"
proof (induction f t ins doc arbitrary: doc' rule: replace_children.induct)
  case (1 "from" to ins)
  then show ?case by (auto split: if_splits)
next
  case (2 "from" to ins s cs)
  show ?case
  proof (cases "from = 0 \<and> to = 0")
    case True
    with 2 show ?thesis by (auto simp: fragmentSize_append)
  next
    case nz: False
    show ?thesis
    proof (cases "length s \<le> from")
      case True
      with nz 2(3) obtain r where r: "replace_children (from - length s) (to - length s) ins cs = Inr r"
        and d: "doc' = Text s # r"
        by (auto simp: map_result_Inr)
      from True 2(4,5) have "from - length s \<le> to - length s" "to - length s \<le> fragmentSize cs"
        by auto
      from 2(1) [OF nz True r this] True 2(4) d show ?thesis by simp
    next
      case False
      with nz 2(3) have c: "from = 0" "length s \<le> to" and r: "replace_children 0 (to - length s) ins cs = Inr doc'"
        by (auto split: if_splits)
      from c 2(5) have "0 \<le> to - length s" "to - length s \<le> fragmentSize cs" by auto
      from 2(2) [OF nz False _ r this] c show ?thesis by simp
    qed
  qed
next
  case (3 "from" to ins t a cs)
  show ?case
  proof (cases "from = 0 \<and> to = 0")
    case True
    with 3 show ?thesis by (auto simp: fragmentSize_append)
  next
    case nz: False
    show ?thesis
    proof (cases "1 \<le> from")
      case True
      with nz 3(3) obtain r where r: "replace_children (from - 1) (to - 1) ins cs = Inr r"
        and d: "doc' = Leaf t a # r"
        by (auto simp: map_result_Inr)
      from True 3(4,5) have "from - 1 \<le> to - 1" "to - 1 \<le> fragmentSize cs"
        by auto
      from 3(1) [OF nz True r this] True 3(4) d show ?thesis by simp
    next
      case False
      with nz 3(3) have c: "from = 0" "1 \<le> to" and r: "replace_children 0 (to - 1) ins cs = Inr doc'"
        by (auto split: if_splits)
      from c 3(5) have "0 \<le> to - 1" "to - 1 \<le> fragmentSize cs" by auto
      from 3(2) [OF nz False r this] c show ?thesis by simp
    qed
  qed
next
  case (4 "from" to ins t a ks cs)
  let ?n = "2 + fragmentSize ks"
  show ?case
  proof (cases "from = 0 \<and> to = 0")
    case True
    with 4 show ?thesis by (auto simp: fragmentSize_append)
  next
    case nz: False
    show ?thesis
    proof (cases "?n \<le> from")
      case True
      with nz 4(4) obtain r where r: "replace_children (from - ?n) (to - ?n) ins cs = Inr r"
        and d: "doc' = Branch t a ks # r"
        by (auto simp: map_result_Inr)
      from True 4(5,6) have "from - ?n \<le> to - ?n" "to - ?n \<le> fragmentSize cs"
        by auto
      from 4(1) [OF nz True r this] True 4(5) d show ?thesis by simp
    next
      case nskip: False
      show ?thesis
      proof (cases "from = 0")
        case True
        with nz nskip 4(4) have c: "?n \<le> to" and r: "replace_children 0 (to - ?n) ins cs = Inr doc'"
          by (auto split: if_splits)
        from c 4(6) have "0 \<le> to - ?n" "to - ?n \<le> fragmentSize cs" by auto
        from 4(2) [OF nz nskip True c r this] c True show ?thesis by simp
      next
        case False
        with nz nskip 4(4) obtain r where c: "to < ?n"
          and nb: "\<not> (from = to \<and> inline_content t \<and> list_ex block_node ins)"
          and r: "replace_children (from - 1) (to - 1) ins ks = Inr r"
          and d: "doc' = Branch t a r # cs"
          by (auto simp: map_result_Inr split: if_splits)
        from False c 4(5) have "from - 1 \<le> to - 1" "to - 1 \<le> fragmentSize ks" by auto
        from 4(3) [OF nz nskip False c nb r this] False c 4(5) d show ?thesis by simp
      qed
    qed
  qed
qed

lemma set_markup_size:
  "set_markup p ty a doc = Inr doc' \<Longrightarrow> fragmentSize doc' = fragmentSize doc"
proof (induction p ty a doc arbitrary: doc' rule: set_markup.induct)
  case (1 pos ty a)
  then show ?case by simp
next
  case (2 pos ty a s cs)
  show ?case
  proof (cases "length s \<le> pos")
    case True
    with 2(2) obtain r where r: "set_markup (pos - length s) ty a cs = Inr r" and d: "doc' = Text s # r"
      by (auto simp: map_result_Inr)
    from 2(1) [OF True r] d show ?thesis by simp
  next
    case False
    with 2(2) show ?thesis by simp
  qed
next
  case (3 pos ty a t b cs)
  show ?case
  proof (cases "1 \<le> pos")
    case True
    with 3(2) obtain r where r: "set_markup (pos - 1) ty a cs = Inr r" and d: "doc' = Leaf t b # r"
      by (auto simp: map_result_Inr)
    from 3(1) [OF True r] d show ?thesis by simp
  next
    case False
    with 3(2) show ?thesis by (auto split: if_splits)
  qed
next
  case (4 pos ty a t b ks cs)
  let ?n = "2 + fragmentSize ks"
  show ?case
  proof (cases "?n \<le> pos")
    case True
    with 4(3) obtain r where r: "set_markup (pos - ?n) ty a cs = Inr r" and d: "doc' = Branch t b ks # r"
      by (auto simp: map_result_Inr)
    from 4(1) [OF True r] d show ?thesis by simp
  next
    case nskip: False
    show ?thesis
    proof (cases "pos = 0")
      case True
      with nskip 4(3) show ?thesis by (auto split: if_splits)
    next
      case False
      with nskip 4(3) obtain r where r: "set_markup (pos - 1) ty a ks = Inr r" and d: "doc' = Branch t b r # cs"
        by (auto simp: map_result_Inr)
      from 4(2) [OF nskip False r] d show ?thesis by simp
    qed
  qed
qed

lemma apply_op_size:
  "apply_op x doc = Inr doc' \<Longrightarrow> neutral n x \<Longrightarrow> fragmentSize doc' = fragmentSize doc"
proof (cases x)
  case (ReplaceWith f t ns)
  assume a: "apply_op x doc = Inr doc'" "neutral n x"
  with ReplaceWith have r: "replace_children f t ns doc = Inr doc'" and b: "f \<le> t" "t \<le> fragmentSize doc"
    by (auto split: if_splits)
  from replace_children_size [OF r b] a(2) ReplaceWith show ?thesis by simp
next
  case (SetNodeMarkup p ty a)
  assume "apply_op x doc = Inr doc'"
  with SetNodeMarkup show ?thesis by (simp add: set_markup_size)
next
  case (SelectionToInsertionEnd k b)
  assume "apply_op x doc = Inr doc'"
  with SelectionToInsertionEnd show ?thesis by simp
qed

lemma apply_op_skip:
  assumes "neutral n x"
  shows "apply_op (shift (nodeSize c) x) (c # cs) = map_result ((#) c) (apply_op x cs)"
proof (cases x)
  case (ReplaceWith f t ns)
  with assms have "f < t" by simp
  with ReplaceWith show ?thesis by (cases c) auto
next
  case (SetNodeMarkup p ty a)
  then show ?thesis by (cases c) auto
next
  case (SelectionToInsertionEnd k b)
  then show ?thesis by simp
qed

lemma apply_op_descend:
  assumes "neutral (fragmentSize ks) x"
  shows "apply_op (shift 1 x) (Branch t a ks # cs) =
           map_result (\<lambda>ks'. Branch t a ks' # cs) (apply_op x ks)"
proof (cases x)
  case (ReplaceWith f t ns)
  with assms show ?thesis by auto
next
  case (SetNodeMarkup p ty a)
  with assms show ?thesis by auto
next
  case (SelectionToInsertionEnd k b)
  then show ?thesis by simp
qed

lemma run_skip:
  "\<forall>x\<in>set os. neutral n x \<Longrightarrow>
     run (map (shift (nodeSize c)) os) (c # cs) = map_result ((#) c) (run os cs)"
proof (induction os arbitrary: cs)
  case Nil
  then show ?case by simp
next
  case (Cons x os)
  then have x: "neutral n x" and os: "\<forall>x\<in>set os. neutral n x" by simp_all
  show ?case
  proof (cases "apply_op x cs")
    case (Inl e)
    with apply_op_skip [OF x, of c cs] show ?thesis by simp
  next
    case (Inr cs')
    with apply_op_skip [OF x, of c cs] Cons.IH [OF os, of cs'] show ?thesis by simp
  qed
qed

lemma run_descend:
  "\<forall>x\<in>set os. neutral (fragmentSize ks) x \<Longrightarrow>
     run (map (shift 1) os) (Branch t a ks # cs) =
       map_result (\<lambda>ks'. Branch t a ks' # cs) (run os ks)"
proof (induction os arbitrary: ks)
  case Nil
  then show ?case by simp
next
  case (Cons x os)
  then have x: "neutral (fragmentSize ks) x" and os: "\<forall>x\<in>set os. neutral (fragmentSize ks) x"
    by simp_all
  show ?case
  proof (cases "apply_op x ks")
    case (Inl e)
    with apply_op_descend [OF x, of t a cs] show ?thesis by simp
  next
    case (Inr ks')
    from apply_op_size [OF Inr x] os have "\<forall>x\<in>set os. neutral (fragmentSize ks') x" by simp
    from Cons.IH [OF this] Inr apply_op_descend [OF x, of t a cs] show ?thesis by simp
  qed
qed

lemma descendants_bounds:
  "(n, q) \<in> set (descendants p ns) \<Longrightarrow> p \<le> q \<and> q + nodeSize n \<le> p + fragmentSize ns"
  by (induction p ns rule: descendants.induct) auto

lemma ops_at_neutral:
  assumes "x \<in> set (ops_at ser ih 0 ns)"
  shows "neutral (fragmentSize ns) x"
proof -
  from assms obtain n q where d: "(n, q) \<in> set (descendants 0 ns)" and x: "x \<in> set (node_ops ser ih n q)"
    by (auto simp: ops_at_def)
  from descendants_bounds [OF d] have b: "q + nodeSize n \<le> fragmentSize ns" by simp
  from x b show ?thesis
    by (auto simp: node_ops_eq empty_paragraph_def split: if_splits)
qed

lemma fragmentSize_map:
  "\<forall>x\<in>set cs. nodeSize (f x) = nodeSize x \<Longrightarrow> fragmentSize (map f cs) = fragmentSize cs"
  by (induction cs) simp_all

lemma nodeSize_reconciled: "nodeSize (reconciled ser ih c) = nodeSize c"
  by (induction ser ih c rule: reconciled.induct)
     (simp_all add: empty_paragraph_def fragmentSize_map)

lemma fragmentSize_reconciled: "fragmentSize (map (reconciled ser ih) cs) = fragmentSize cs"
  by (simp add: fragmentSize_map nodeSize_reconciled)

lemma ops_at_zero_size: "fragmentSize ks = 0 \<Longrightarrow> ops_at ser ih 0 ks = []"
proof (induction ks)
  case Nil
  then show ?case by (simp add: ops_at_Nil)
next
  case (Cons c ks)
  then have "nodeSize c = 0" "fragmentSize ks = 0" by simp_all
  moreover from this obtain s where "c = Text s" by (cases c) simp_all
  ultimately show ?case using Cons.IH by (simp add: ops_at_Cons node_ops_eq ops_at_Nil)
qed

lemma replace_children_here: "replace_children 0 0 ins cs = Inr (ins @ cs)"
proof (cases cs)
  case Nil
  then show ?thesis by simp
next
  case (Cons c cs')
  then show ?thesis by (cases c) simp_all
qed

lemma js_get_update_same: "js_get a k = JStr v \<Longrightarrow> AList.update k (JStr v) a = a"
  by (rule update_triv) (simp add: js_get_def split: option.splits)

lemma synced_attrs_unchanged:
  "\<not> (type_name c = ''attachment-figure'' \<and> js_get (attrs c) ''caption'' \<noteq> JStr (ih (ser (content c))))
     \<Longrightarrow> synced_attrs ser ih c = attrs c"
  by (auto simp: synced_attrs_def js_get_update_same)

lemma run_head_ops:
  "run (node_ops ser ih c 0) (c # cs) = Inr (
     (if type_name c = ''attachment-gallery'' \<and> nodeSize c = 2 then empty_paragraph
      else case c of Text s \<Rightarrow> Text s | Leaf t a \<Rightarrow> Leaf t (synced_attrs ser ih c)
           | Branch t a ks \<Rightarrow> Branch t (synced_attrs ser ih c) ks) # cs)"
proof (cases c)
  case (Text s)
  then show ?thesis by (simp add: node_ops_eq)
next
  case (Leaf t a)
  then show ?thesis
    using synced_attrs_unchanged [of c ih ser] by (auto simp: node_ops_eq keeps_figure_def)
next
  case (Branch t a ks)
  then show ?thesis
    using synced_attrs_unchanged [of c ih ser]
    by (auto simp: node_ops_eq replace_children_here keeps_figure_def)
qed

lemma run_ops_at: "run (ops_at ser ih 0 ns) ns = Inr (map (reconciled ser ih) ns)"
proof (induction "size_list size ns" arbitrary: ns rule: less_induct)
  case less
  show ?case
  proof (cases ns)
    case Nil
    then show ?thesis by (simp add: ops_at_Nil)
  next
    case (Cons c cs)
    have tail: "run (ops_at ser ih 0 cs) cs = Inr (map (reconciled ser ih) cs)"
      using less [of cs] Cons by simp
    have neutral_cs: "\<forall>x\<in>set (ops_at ser ih 0 cs). neutral (fragmentSize cs) x"
      by (simp add: ops_at_neutral)
    have skip: "nodeSize c' = nodeSize c \<Longrightarrow>
        run (map (shift (nodeSize c)) (ops_at ser ih 0 cs)) (c' # cs)
          = Inr (c' # map (reconciled ser ih) cs)" for c'
      using run_skip [OF neutral_cs, of c' cs] tail by simp
    show ?thesis
    proof (cases c)
      case (Text s)
      with Cons skip [of c] run_head_ops [of ser ih c cs] show ?thesis
        by (simp add: ops_at_Cons run_append ops_at_Nil node_ops_eq)
    next
      case (Leaf t a)
      with Cons skip [of "Leaf t (synced_attrs ser ih c)"] run_head_ops [of ser ih c cs]
      show ?thesis
        by (simp add: ops_at_Cons run_append ops_at_Nil)
    next
      case (Branch t a ks)
      have inner: "run (ops_at ser ih 0 ks) ks = Inr (map (reconciled ser ih) ks)"
        using less [of ks] Cons Branch by simp
      have neutral_ks: "\<forall>x\<in>set (ops_at ser ih 0 ks). neutral (fragmentSize ks) x"
        by (simp add: ops_at_neutral)
      show ?thesis
      proof (cases "t = ''attachment-gallery'' \<and> fragmentSize ks = 0")
        case True
        with Cons Branch skip [of empty_paragraph] run_head_ops [of ser ih c cs]
        show ?thesis
          by (simp add: ops_at_Cons run_append ops_at_zero_size empty_paragraph_def)
      next
        case False
        let ?c1 = "Branch t (synced_attrs ser ih c) ks"
        let ?c2 = "Branch t (synced_attrs ser ih c) (map (reconciled ser ih) ks)"
        from False Branch run_head_ops [of ser ih c cs]
        have 1: "run (node_ops ser ih c 0) (c # cs) = Inr (?c1 # cs)" by auto
        from run_descend [OF neutral_ks, of t "synced_attrs ser ih c" cs] inner
        have 2: "run (map (shift 1) (ops_at ser ih 0 ks)) (?c1 # cs) = Inr (?c2 # cs)" by simp
        from skip [of ?c2] Branch
        have 3: "run (map (shift (nodeSize c)) (ops_at ser ih 0 cs)) (?c2 # cs)
                   = Inr (?c2 # map (reconciled ser ih) cs)"
          by (simp add: fragmentSize_reconciled)
        from False Branch have 4: "reconciled ser ih c = ?c2" by auto
        from 1 2 3 4 Cons Branch show ?thesis
          by (simp add: ops_at_Cons run_append)
      qed
    qed
  qed
qed

lemma commit_eq: "commit ser ih doc = Inr (map (reconciled ser ih) doc)"
proof (cases "ops_at ser ih 0 doc = []")
  case True
  with run_ops_at [of ser ih doc] show ?thesis
    by (simp add: commit_def appendTransaction_eq)
next
  case False
  with run_ops_at [of ser ih doc] show ?thesis
    by (simp add: commit_def appendTransaction_eq)
qed

lemma descendants_reconciled_gallery:
  "(n, p) \<in> set (descendants q ns) \<Longrightarrow> empty_gallery n \<Longrightarrow>
     (empty_paragraph, p) \<in> set (descendants q (map (reconciled ser ih) ns))"
proof (induction q ns rule: descendants.induct)
  case (1 p)
  then show ?case by simp
next
  case (2 p s ns)
  then show ?case by auto
next
  case (3 p t a ns)
  then show ?case by auto
next
  case (4 q t a cs ns)
  from 4(3) consider (head) "n = Branch t a cs" "p = q" | (inner) "(n, p) \<in> set (descendants (q + 1) cs)"
    | (tail) "(n, p) \<in> set (descendants (q + 2 + fragmentSize cs) ns)" by auto
  then show ?case
  proof cases
    case head
    with 4(4) show ?thesis by (simp add: empty_paragraph_def)
  next
    case inner
    from descendants_bounds [OF inner] 4(4) have "fragmentSize cs \<noteq> 0" by (cases n) auto
    with 4(1) [OF inner 4(4)] show ?thesis by simp
  next
    case tail
    from 4(2) [OF tail 4(4)] show ?thesis
      by (auto simp: empty_paragraph_def fragmentSize_reconciled)
  qed
qed

lemma no_empty_gallery_reconciled:
  "(n, p) \<in> set (descendants q (map (reconciled ser ih) ns)) \<Longrightarrow> \<not> empty_gallery n"
proof (induction q ns rule: descendants.induct)
  case (1 p)
  then show ?case by simp
next
  case (2 p s ns)
  then show ?case by auto
next
  case (3 p t a ns)
  then show ?case by auto
next
  case (4 q t a cs ns)
  show ?case
  proof (cases "t = ''attachment-gallery'' \<and> fragmentSize cs = 0")
    case True
    with 4(3) have "n = empty_paragraph \<or> (n, p) \<in> set (descendants (q + 2 + fragmentSize cs) (map (reconciled ser ih) ns))"
      by (auto simp: empty_paragraph_def)
    with 4(2) show ?thesis by (auto simp: empty_paragraph_def)
  next
    case False
    with 4(3) consider (head) "n = Branch t (synced_attrs ser ih (Branch t a cs)) (map (reconciled ser ih) cs)"
      | (inner) "(n, p) \<in> set (descendants (q + 1) (map (reconciled ser ih) cs))"
      | (tail) "(n, p) \<in> set (descendants (q + 2 + fragmentSize cs) (map (reconciled ser ih) ns))"
      by (auto simp: fragmentSize_reconciled)
    then show ?thesis
    proof cases
      case head
      with False show ?thesis by auto
    next
      case inner
      with 4(1) show ?thesis by simp
    next
      case tail
      with 4(2) show ?thesis by simp
    qed
  qed
qed

lemma reconciled_inline: "inline_node c \<Longrightarrow> reconciled ser ih c = c"
  by (induction ser ih c rule: reconciled.induct)
     (auto simp: synced_attrs_def map_idI)

lemma ops_at_inline: "\<forall>c\<in>set cs. inline_node c \<Longrightarrow> ops_at ser ih 0 cs = []"
proof (induction "size_list size cs" arbitrary: cs rule: less_induct)
  case less
  show ?case
  proof (cases cs)
    case Nil
    then show ?thesis by (simp add: ops_at_Nil)
  next
    case (Cons c cs')
    with less.prems have c: "inline_node c" and cs': "\<forall>c\<in>set cs'. inline_node c" by simp_all
    have 1: "ops_at ser ih 0 cs' = []" using less.hyps [of cs'] cs' Cons by simp
    from c have 2: "node_ops ser ih c 0 = []" by (cases c) (auto simp: node_ops_eq)
    have 3: "ops_at ser ih 0 (content c) = []"
    proof (cases c)
      case (Branch t a ks)
      with c have "\<forall>c\<in>set ks. inline_node c" by simp
      with less.hyps [of ks] Cons Branch show ?thesis by simp
    qed (simp_all add: ops_at_Nil)
    from 1 2 3 Cons show ?thesis by (simp add: ops_at_Cons)
  qed
qed

lemma js_get_update: "js_get (AList.update k v a) k = v"
  by (simp add: js_get_def update_conv')

lemma ops_at_reconciled:
  "\<forall>c\<in>set cs. figure_content_inline c \<Longrightarrow> ops_at ser ih 0 (map (reconciled ser ih) cs) = []"
proof (induction "size_list size cs" arbitrary: cs rule: less_induct)
  case less
  show ?case
  proof (cases cs)
    case Nil
    then show ?thesis by (simp add: ops_at_Nil)
  next
    case (Cons c cs')
    with less.prems have c: "figure_content_inline c" and cs': "\<forall>c\<in>set cs'. figure_content_inline c"
      by simp_all
    have 1: "ops_at ser ih 0 (map (reconciled ser ih) cs') = []"
      using less.hyps [of cs'] cs' Cons by simp
    have 2: "node_ops ser ih (reconciled ser ih c) 0 = []
             \<and> ops_at ser ih 0 (content (reconciled ser ih c)) = []"
    proof (cases c)
      case (Text s)
      then show ?thesis by (simp add: node_ops_eq ops_at_Nil)
    next
      case (Leaf t a)
      then show ?thesis
        by (simp add: node_ops_eq ops_at_Nil synced_attrs_def js_get_update)
    next
      case (Branch t a ks)
      show ?thesis
      proof (cases "t = ''attachment-gallery'' \<and> fragmentSize ks = 0")
        case True
        with Branch show ?thesis by (simp add: node_ops_eq ops_at_Nil empty_paragraph_def)
      next
        case ng: False
        show ?thesis
        proof (cases "t = ''attachment-figure''")
          case True
          with c Branch have inl: "\<forall>c\<in>set ks. inline_node c" by simp
          then have "map (reconciled ser ih) ks = ks" by (simp add: map_idI reconciled_inline)
          with True Branch ops_at_inline [OF inl, of ser ih] show ?thesis
            by (simp add: node_ops_eq synced_attrs_def js_get_update)
        next
          case False
          with c Branch have "\<forall>c\<in>set ks. figure_content_inline c" by simp
          with less.hyps [of ks] Cons Branch
          have "ops_at ser ih 0 (map (reconciled ser ih) ks) = []" by simp
          with False ng Branch show ?thesis
            by (auto simp: node_ops_eq fragmentSize_reconciled)
        qed
      qed
    qed
    from 1 2 Cons show ?thesis by (simp add: ops_at_Cons)
  qed
qed

lemma no_check_fires:
  assumes "node_ops ser ih n p = []"
  shows "handleGallery n tr p = (False, tr) \<and> handleCaptions ser ih n tr p = (False, tr)"
  using assms by (auto simp: node_ops_eq handleCaptions_eq handleGallery_def split: if_splits)

lemma node_ops_in_ops_at:
  "np \<in> set (descendants 0 doc) \<Longrightarrow> set (node_ops ser ih (fst np) (snd np)) \<subseteq> set (ops_at ser ih 0 doc)"
  by (auto simp: ops_at_def)

lemma js_get_update_other: "k' \<noteq> k \<Longrightarrow> js_get (AList.update k v a) k' = js_get a k'"
  by (simp add: js_get_def update_conv')

lemma descendants_laminar:
  "(a, p) \<in> set (descendants s ns) \<Longrightarrow> (b, q) \<in> set (descendants s ns) \<Longrightarrow> p \<le> q \<Longrightarrow>
     0 < nodeSize a \<Longrightarrow> 0 < nodeSize b \<Longrightarrow>
     (a, p) = (b, q) \<or> (p < q \<and> q + nodeSize b < p + nodeSize a) \<or> p + nodeSize a \<le> q"
proof (induction s ns rule: descendants.induct)
  case (1 s)
  then show ?case by simp
next
  case (2 s str ns)
  from 2(2) consider (head) "(a, p) = (Text str, s)"
    | (tail) "(a, p) \<in> set (descendants (s + length str) ns)" by auto
  then show ?case
  proof cases
    case head
    from 2(3) consider (bhead) "(b, q) = (Text str, s)"
      | (btail) "(b, q) \<in> set (descendants (s + length str) ns)" by auto
    then show ?thesis
    proof cases
      case bhead
      with head show ?thesis by simp
    next
      case btail
      from descendants_bounds [OF btail] head show ?thesis by auto
    qed
  next
    case tail
    from 2(3) consider (bhead) "(b, q) = (Text str, s)"
      | (btail) "(b, q) \<in> set (descendants (s + length str) ns)" by auto
    then show ?thesis
    proof cases
      case bhead
      from bhead 2(6) have "0 < length str" by simp
      with descendants_bounds [OF tail] bhead 2(4) show ?thesis by auto
    next
      case btail
      from 2(1) [OF tail btail 2(4,5,6)] show ?thesis .
    qed
  qed
next
  case (3 s t b0 ns)
  from 3(2) consider (head) "(a, p) = (Leaf t b0, s)"
    | (tail) "(a, p) \<in> set (descendants (s + 1) ns)" by auto
  then show ?case
  proof cases
    case head
    from 3(3) consider (bhead) "(b, q) = (Leaf t b0, s)"
      | (btail) "(b, q) \<in> set (descendants (s + 1) ns)" by auto
    then show ?thesis
    proof cases
      case bhead
      with head show ?thesis by simp
    next
      case btail
      from descendants_bounds [OF btail] head show ?thesis by auto
    qed
  next
    case tail
    from 3(3) consider (bhead) "(b, q) = (Leaf t b0, s)"
      | (btail) "(b, q) \<in> set (descendants (s + 1) ns)" by auto
    then show ?thesis
    proof cases
      case bhead
      from descendants_bounds [OF tail] bhead 3(4) show ?thesis by auto
    next
      case btail
      from 3(1) [OF tail btail 3(4,5,6)] show ?thesis .
    qed
  qed
next
  case (4 s t b0 cs ns)
  let ?e = "s + 2 + fragmentSize cs"
  from 4(3) consider (head) "(a, p) = (Branch t b0 cs, s)"
    | (inner) "(a, p) \<in> set (descendants (s + 1) cs)"
    | (tail) "(a, p) \<in> set (descendants ?e ns)" by auto
  then show ?case
  proof cases
    case head
    from 4(4) consider (bhead) "(b, q) = (Branch t b0 cs, s)"
      | (binner) "(b, q) \<in> set (descendants (s + 1) cs)"
      | (btail) "(b, q) \<in> set (descendants ?e ns)" by auto
    then show ?thesis
    proof cases
      case bhead
      with head show ?thesis by simp
    next
      case binner
      from descendants_bounds [OF binner] head show ?thesis by auto
    next
      case btail
      from descendants_bounds [OF btail] head show ?thesis by auto
    qed
  next
    case inner
    from 4(4) consider (bhead) "(b, q) = (Branch t b0 cs, s)"
      | (binner) "(b, q) \<in> set (descendants (s + 1) cs)"
      | (btail) "(b, q) \<in> set (descendants ?e ns)" by auto
    then show ?thesis
    proof cases
      case bhead
      from descendants_bounds [OF inner] bhead 4(5) show ?thesis by auto
    next
      case binner
      from 4(1) [OF inner binner 4(5,6,7)] show ?thesis .
    next
      case btail
      from descendants_bounds [OF btail] descendants_bounds [OF inner] show ?thesis by auto
    qed
  next
    case tail
    from 4(4) consider (bhead) "(b, q) = (Branch t b0 cs, s)"
      | (binner) "(b, q) \<in> set (descendants (s + 1) cs)"
      | (btail) "(b, q) \<in> set (descendants ?e ns)" by auto
    then show ?thesis
    proof cases
      case bhead
      from descendants_bounds [OF tail] bhead 4(5) show ?thesis by auto
    next
      case binner
      from descendants_bounds [OF tail] descendants_bounds [OF binner] 4(5,7) show ?thesis by auto
    next
      case btail
      from 4(2) [OF tail btail 4(5,6,7)] show ?thesis .
    qed
  qed
qed

lemma descendants_reconciled_kept:
  "(n, p) \<in> set (descendants q ns) \<Longrightarrow> 0 < nodeSize n \<Longrightarrow>
     type_name n \<noteq> ''attachment-gallery'' \<Longrightarrow>
     (reconciled ser ih n, p) \<in> set (descendants q (map (reconciled ser ih) ns))"
proof (induction q ns rule: descendants.induct)
  case (1 p)
  then show ?case by simp
next
  case (2 p s ns)
  then show ?case by auto
next
  case (3 p t a ns)
  then show ?case by auto
next
  case (4 q t a cs ns)
  from 4(3) consider (head) "n = Branch t a cs" "p = q" | (inner) "(n, p) \<in> set (descendants (q + 1) cs)"
    | (tail) "(n, p) \<in> set (descendants (q + 2 + fragmentSize cs) ns)" by auto
  then show ?case
  proof cases
    case head
    with 4(5) show ?thesis by simp
  next
    case inner
    from descendants_bounds [OF inner] 4(4) have "fragmentSize cs \<noteq> 0" by auto
    with 4(1) [OF inner 4(4,5)] show ?thesis by simp
  next
    case tail
    from 4(2) [OF tail 4(4,5)] show ?thesis
      by (auto simp: empty_paragraph_def fragmentSize_reconciled)
  qed
qed

lemma reconciled_other:
  "type_name n \<noteq> ''attachment-gallery'' \<Longrightarrow> type_name n \<noteq> ''attachment-figure'' \<Longrightarrow>
     type_name (reconciled ser ih n) = type_name n \<and> attrs (reconciled ser ih n) = attrs n"
  by (cases n) (simp_all add: synced_attrs_def)

lemma figure_size: "type_name g = ''attachment-figure'' \<Longrightarrow> 0 < nodeSize g"
  by (cases g) simp_all

text \<open>
  C1. For every gallery node with zero children in the document after a transaction, the
  pass asks to replace the range of that gallery by one empty paragraph, the committed
  document has an empty paragraph at the gallery's position, and no gallery with zero
  children is left anywhere in the committed document.
\<close>

theorem empty_gallery_collapsed:
  "\<exists>doc'. commit ser ih doc = Inr doc'
     \<and> (\<forall>np\<in>set (descendants 0 doc'). \<not> empty_gallery (fst np))
     \<and> (\<forall>np\<in>set (descendants 0 doc). empty_gallery (fst np) \<longrightarrow>
          (\<exists>tr. appendTransaction ser ih doc = Some tr
             \<and> ReplaceWith (snd np) (snd np + nodeSize (fst np)) [empty_paragraph] \<in> set tr)
          \<and> (empty_paragraph, snd np) \<in> set (descendants 0 doc'))"
proof -
  let ?d = "map (reconciled ser ih) doc"
  have 1: "commit ser ih doc = Inr ?d" by (rule commit_eq)
  have 2: "\<forall>np\<in>set (descendants 0 ?d). \<not> empty_gallery (fst np)"
    using no_empty_gallery_reconciled [of _ _ 0 ser ih doc] by auto
  have 3: "\<forall>np\<in>set (descendants 0 doc). empty_gallery (fst np) \<longrightarrow>
          (\<exists>tr. appendTransaction ser ih doc = Some tr
             \<and> ReplaceWith (snd np) (snd np + nodeSize (fst np)) [empty_paragraph] \<in> set tr)
          \<and> (empty_paragraph, snd np) \<in> set (descendants 0 ?d)"
  proof (intro ballI impI conjI)
    fix np assume np: "np \<in> set (descendants 0 doc)" and e: "empty_gallery (fst np)"
    from e have "node_ops ser ih (fst np) (snd np)
                   = [ReplaceWith (snd np) (snd np + nodeSize (fst np)) [empty_paragraph]]"
      by (cases "fst np") (simp_all add: node_ops_eq)
    with node_ops_in_ops_at [OF np, of ser ih]
    have "ReplaceWith (snd np) (snd np + nodeSize (fst np)) [empty_paragraph]
            \<in> set (ops_at ser ih 0 doc)"
      by simp
    then show "\<exists>tr. appendTransaction ser ih doc = Some tr
               \<and> ReplaceWith (snd np) (snd np + nodeSize (fst np)) [empty_paragraph] \<in> set tr"
      by (auto simp: appendTransaction_eq)
    from np e show "(empty_paragraph, snd np) \<in> set (descendants 0 ?d)"
      using descendants_reconciled_gallery [of "fst np" "snd np" 0 doc ser ih] by simp
  qed
  from 1 2 3 show ?thesis by blast
qed

theorem empty_gallery_collapsed_witness:
  "(Branch ''attachment-gallery'' [] [], 0) \<in> set (descendants 0 doc_empty_gallery)
   \<and> empty_gallery (Branch ''attachment-gallery'' [] [])
   \<and> (\<exists>doc'. commit text_ser text_markup doc_empty_gallery = Inr doc'
         \<and> (empty_paragraph, 0) \<in> set (descendants 0 doc')
         \<and> (\<forall>np\<in>set (descendants 0 doc'). \<not> empty_gallery (fst np)))"
proof -
  have h: "(Branch ''attachment-gallery'' [] [], 0) \<in> set (descendants 0 doc_empty_gallery)"
    by (simp add: doc_empty_gallery_def)
  from empty_gallery_collapsed [of text_ser text_markup doc_empty_gallery] h
  show ?thesis by fastforce
qed

text \<open>
  C2. For a figure node whose stored caption attribute differs from the inner markup of
  the figcaption element of the node's rendering, the caption-sync step asks for new
  attributes in which the caption is that markup and every other attribute has the value
  it had, with no key added except the caption; applied to the node, the request changes
  neither its type nor its content.
\<close>

theorem caption_sync_rewrites_only_caption:
  assumes "type_name node = ''attachment-figure''"
    and "query ''figcaption'' (childNodes (Element ''div'' [] [renderHTML (ser (content node)) node]))
           = Some figcaption"
    and "js_get (attrs node) ''caption'' \<noteq> JStr (ih (childNodes figcaption))"
  shows "\<exists>a'. handleCaptions ser ih node tr pos = (True, tr @ [SetNodeMarkup pos None a'])
           \<and> js_get a' ''caption'' = JStr (ih (childNodes figcaption))
           \<and> (\<forall>k. k \<noteq> ''caption'' \<longrightarrow> js_get a' k = js_get (attrs node) k)
           \<and> fst ` set a' = insert ''caption'' (fst ` set (attrs node))
           \<and> (\<exists>n'. apply_op (SetNodeMarkup 0 None a') (node # rest) = Inr (n' # rest)
                 \<and> type_name n' = type_name node \<and> content n' = content node \<and> attrs n' = a')"
proof -
  let ?c = "ih (childNodes figcaption)"
  let ?a = "AList.update ''caption'' (JStr ?c) (attrs node)"
  from assms(2) have fc: "childNodes figcaption = ser (content node)"
    unfolding figcaption_found by auto
  with assms(1,3) have 1: "handleCaptions ser ih node tr pos = (True, tr @ [SetNodeMarkup pos None ?a])"
    by (simp add: handleCaptions_eq synced_attrs_def)
  have 2: "js_get ?a ''caption'' = JStr ?c" by (rule js_get_update)
  have 3: "\<forall>k. k \<noteq> ''caption'' \<longrightarrow> js_get ?a k = js_get (attrs node) k"
    by (simp add: js_get_update_other)
  have 4: "fst ` set ?a = insert ''caption'' (fst ` set (attrs node))"
    by (simp add: dom_update)
  from assms(1)
  have 5: "\<exists>n'. apply_op (SetNodeMarkup 0 None ?a) (node # rest) = Inr (n' # rest)
                 \<and> type_name n' = type_name node \<and> content n' = content node \<and> attrs n' = ?a"
    by (cases node) (auto simp: keeps_figure_def)
  from 1 2 3 4 5 show ?thesis by blast
qed

theorem caption_sync_rewrites_only_caption_witness:
  "type_name stale_figure = ''attachment-figure''
   \<and> js_get (attrs stale_figure) ''caption'' \<noteq> JStr ''new''
   \<and> (\<exists>a'. handleCaptions text_ser text_markup stale_figure [] 1 = (True, [SetNodeMarkup 1 None a'])
          \<and> js_get a' ''caption'' = JStr ''new''
          \<and> js_get a' ''url'' = JStr ''a.png'')"
proof -
  let ?fc = "Element ''figcaption''
        [(''class'', Str ''attachment__caption attachment__caption--edited'')] [TextNode ''new'']"
  have 1: "type_name stale_figure = ''attachment-figure''" by (simp add: stale_figure_def)
  have 2: "query ''figcaption'' (childNodes (Element ''div'' []
             [renderHTML (text_ser (content stale_figure)) stale_figure])) = Some ?fc"
    unfolding figcaption_found by (simp add: stale_figure_def text_ser_def)
  have 3: "js_get (attrs stale_figure) ''caption'' \<noteq> JStr (text_markup (childNodes ?fc))"
    by (simp add: stale_figure_def text_markup_def js_get_def)
  have 4: "text_markup (childNodes ?fc) = ''new''" by (simp add: text_markup_def)
  have 5: "js_get (attrs stale_figure) ''url'' = JStr ''a.png''"
    by (simp add: stale_figure_def js_get_def)
  from caption_sync_rewrites_only_caption
         [where node = stale_figure and ser = text_ser and ih = text_markup and figcaption = ?fc
            and tr = "[]" and pos = 1, OF 1 2 3] 3 4 5 1
  show ?thesis by fastforce
qed

text \<open>
  C6. On a document of the schema (the content of a figure is inline), the pass is
  idempotent: in the state it commits no check fires on any node, and the pass returns no
  transaction for it. A transaction that the pass returns is never empty.
\<close>

theorem reconciliation_idempotent:
  assumes "list_all figure_content_inline doc"
  shows "\<exists>doc'. commit ser ih doc = Inr doc'
           \<and> appendTransaction ser ih doc' = None
           \<and> (\<forall>np\<in>set (descendants 0 doc'). \<forall>tr.
                 handleGallery (fst np) tr (snd np) = (False, tr)
                 \<and> handleCaptions ser ih (fst np) tr (snd np) = (False, tr))
           \<and> appendTransaction ser ih doc \<noteq> Some []"
proof -
  let ?d = "map (reconciled ser ih) doc"
  have 0: "ops_at ser ih 0 ?d = []" using assms by (simp add: ops_at_reconciled list_all_iff)
  have 1: "commit ser ih doc = Inr ?d" by (rule commit_eq)
  from 0 have 2: "appendTransaction ser ih ?d = None" by (simp add: appendTransaction_eq)
  have 3: "\<forall>np\<in>set (descendants 0 ?d). \<forall>tr.
             handleGallery (fst np) tr (snd np) = (False, tr)
             \<and> handleCaptions ser ih (fst np) tr (snd np) = (False, tr)"
  proof (intro ballI allI)
    fix np tr assume "np \<in> set (descendants 0 ?d)"
    from node_ops_in_ops_at [OF this, of ser ih] 0
    have "node_ops ser ih (fst np) (snd np) = []" by simp
    then show "handleGallery (fst np) tr (snd np) = (False, tr)
             \<and> handleCaptions ser ih (fst np) tr (snd np) = (False, tr)"
      by (rule no_check_fires)
  qed
  have 4: "appendTransaction ser ih doc \<noteq> Some []" by (simp add: appendTransaction_eq)
  from 1 2 3 4 show ?thesis by blast
qed

theorem reconciliation_idempotent_witness:
  "list_all figure_content_inline doc_stale_caption
   \<and> appendTransaction text_ser text_markup doc_stale_caption \<noteq> None
   \<and> (\<exists>doc'. commit text_ser text_markup doc_stale_caption = Inr doc'
         \<and> appendTransaction text_ser text_markup doc' = None)"
proof -
  have h: "list_all figure_content_inline doc_stale_caption"
    by (simp add: doc_stale_caption_def stale_figure_def)
  have "ops_at text_ser text_markup 0 doc_stale_caption \<noteq> []"
    by (simp add: ops_at_def doc_stale_caption_def stale_figure_def node_ops_eq
          text_ser_def text_markup_def js_get_def)
  then have n: "appendTransaction text_ser text_markup doc_stale_caption \<noteq> None"
    by (simp add: appendTransaction_eq)
  from reconciliation_idempotent [OF h, of text_ser text_markup] h n show ?thesis by blast
qed

text \<open>
  C10. The pass does not touch a node whose type is neither gallery nor figure:
  \<^item> both checks return false and leave the transaction as it was for such a node;
  \<^item> every request in the transaction of the pass is either the replacement, by one
    empty paragraph, of the range of a gallery node of the document whose size is 2 (it
    has no content), or the rewriting of the caption attribute of a figure node of the
    document, at that node's position;
  \<^item> for a node of another type (of size above 0, as every node of a document is) no
    replaced range of the transaction holds the position of the node, and no request
    rewrites the attributes at its position;
  \<^item> the committed document has at the position of such a node a node with its type and
    its attributes.
\<close>

theorem reconciliation_touches_only_galleries_and_figures:
  "(type_name n \<noteq> ''attachment-gallery'' \<and> type_name n \<noteq> ''attachment-figure'' \<longrightarrow>
      handleGallery n tr pos = (False, tr) \<and> handleCaptions ser ih n tr pos = (False, tr))
   \<and> (\<forall>tr'. appendTransaction ser ih doc = Some tr' \<longrightarrow>
        (\<forall>x\<in>set tr'. \<exists>g p. (g, p) \<in> set (descendants 0 doc)
           \<and> (type_name g = ''attachment-gallery'' \<and> nodeSize g = 2
                \<and> x = ReplaceWith p (p + 2) [empty_paragraph]
              \<or> type_name g = ''attachment-figure''
                \<and> x = SetNodeMarkup p None
                        (AList.update ''caption'' (JStr (ih (ser (content g)))) (attrs g))))
        \<and> (\<forall>m q. (m, q) \<in> set (descendants 0 doc) \<and> 0 < nodeSize m
                \<and> type_name m \<noteq> ''attachment-gallery'' \<and> type_name m \<noteq> ''attachment-figure'' \<longrightarrow>
              (\<forall>f t ns. ReplaceWith f t ns \<in> set tr' \<longrightarrow> \<not> (f \<le> q \<and> q < t))
              \<and> (\<forall>ty a. SetNodeMarkup q ty a \<notin> set tr')))
   \<and> (\<forall>m q. (m, q) \<in> set (descendants 0 doc) \<and> 0 < nodeSize m
           \<and> type_name m \<noteq> ''attachment-gallery'' \<and> type_name m \<noteq> ''attachment-figure'' \<longrightarrow>
         (\<exists>doc' m'. commit ser ih doc = Inr doc' \<and> (m', q) \<in> set (descendants 0 doc')
            \<and> type_name m' = type_name m \<and> attrs m' = attrs m))"
proof -
  have 1: "type_name n \<noteq> ''attachment-gallery'' \<and> type_name n \<noteq> ''attachment-figure'' \<longrightarrow>
      handleGallery n tr pos = (False, tr) \<and> handleCaptions ser ih n tr pos = (False, tr)"
    by (simp add: handleGallery_def handleCaptions_eq)
  have origin: "\<exists>g p. (g, p) \<in> set (descendants 0 doc)
           \<and> (type_name g = ''attachment-gallery'' \<and> nodeSize g = 2
                \<and> x = ReplaceWith p (p + 2) [empty_paragraph]
              \<or> type_name g = ''attachment-figure''
                \<and> x = SetNodeMarkup p None
                        (AList.update ''caption'' (JStr (ih (ser (content g)))) (attrs g)))"
    if "appendTransaction ser ih doc = Some tr'" and "x \<in> set tr'" for tr' x
  proof -
    from that have "x \<in> set (ops_at ser ih 0 doc)"
      by (auto simp: appendTransaction_eq split: if_splits)
    then obtain g p where d: "(g, p) \<in> set (descendants 0 doc)" and x: "x \<in> set (node_ops ser ih g p)"
      by (auto simp: ops_at_def)
    from x have "type_name g = ''attachment-gallery'' \<and> nodeSize g = 2
                \<and> x = ReplaceWith p (p + 2) [empty_paragraph]
              \<or> type_name g = ''attachment-figure''
                \<and> x = SetNodeMarkup p None
                        (AList.update ''caption'' (JStr (ih (ser (content g)))) (attrs g))"
      by (auto simp: node_ops_eq synced_attrs_def split: if_splits)
    with d show ?thesis by blast
  qed
  have frame: "(\<forall>f t ns. ReplaceWith f t ns \<in> set tr' \<longrightarrow> \<not> (f \<le> q \<and> q < t))
              \<and> (\<forall>ty a. SetNodeMarkup q ty a \<notin> set tr')"
    if tr': "appendTransaction ser ih doc = Some tr'"
      and m: "(m, q) \<in> set (descendants 0 doc)" "0 < nodeSize m"
        "type_name m \<noteq> ''attachment-gallery''" "type_name m \<noteq> ''attachment-figure''"
    for tr' m q
  proof (intro conjI allI impI notI)
    fix f t ns assume "ReplaceWith f t ns \<in> set tr'" and r: "f \<le> q \<and> q < t"
    from origin [OF tr' this(1)] obtain g where g: "(g, f) \<in> set (descendants 0 doc)"
      "type_name g = ''attachment-gallery''" "nodeSize g = 2" and t: "t = f + 2" by auto
    from descendants_laminar [OF g(1) m(1)] r g(3) m(2)
    have "(g, f) = (m, q) \<or> (f < q \<and> q + nodeSize m < f + 2) \<or> f + 2 \<le> q" by simp
    with r t g(2) m(2,3) show False by auto
  next
    fix ty a assume "SetNodeMarkup q ty a \<in> set tr'"
    from origin [OF tr' this] obtain g where g: "(g, q) \<in> set (descendants 0 doc)"
      "type_name g = ''attachment-figure''" by auto
    from descendants_laminar [OF g(1) m(1)] figure_size [OF g(2)] m(2)
    have "(g, q) = (m, q) \<or> (q < q \<and> q + nodeSize m < q + nodeSize g) \<or> q + nodeSize g \<le> q"
      by simp
    with g(2) m(4) figure_size [OF g(2)] show False by auto
  qed
  have kept: "\<exists>doc' m'. commit ser ih doc = Inr doc' \<and> (m', q) \<in> set (descendants 0 doc')
            \<and> type_name m' = type_name m \<and> attrs m' = attrs m"
    if m: "(m, q) \<in> set (descendants 0 doc)" "0 < nodeSize m"
        "type_name m \<noteq> ''attachment-gallery''" "type_name m \<noteq> ''attachment-figure''"
    for m q
    using commit_eq [of ser ih doc] descendants_reconciled_kept [OF m(1,2,3), of ser ih]
      reconciled_other [OF m(3,4), of ser ih]
    by blast
  from 1 origin frame kept show ?thesis by blast
qed

theorem reconciliation_touches_only_galleries_and_figures_witness:
  "type_name (Text ''hi'') \<noteq> ''attachment-gallery'' \<and> type_name (Text ''hi'') \<noteq> ''attachment-figure''
   \<and> handleGallery (Text ''hi'') [] 3 = (False, [])
   \<and> handleCaptions text_ser text_markup (Text ''hi'') [] 3 = (False, [])
   \<and> appendTransaction text_ser text_markup doc_empty_gallery
        = Some [ReplaceWith 0 2 [empty_paragraph]]
   \<and> (\<exists>g p. (g, p) \<in> set (descendants 0 doc_empty_gallery)
         \<and> type_name g = ''attachment-gallery'' \<and> nodeSize g = 2
         \<and> ReplaceWith 0 2 [empty_paragraph] = ReplaceWith p (p + 2) [empty_paragraph])
   \<and> (Branch ''paragraph'' [] [Text ''hi''], 2) \<in> set (descendants 0 doc_empty_gallery)
   \<and> (\<exists>doc' m'. commit text_ser text_markup doc_empty_gallery = Inr doc'
         \<and> (m', 2) \<in> set (descendants 0 doc')
         \<and> type_name m' = ''paragraph'' \<and> attrs m' = [])"
proof -
  have t: "type_name (Text ''hi'') \<noteq> ''attachment-gallery'' \<and> type_name (Text ''hi'') \<noteq> ''attachment-figure''"
    by simp
  have a: "appendTransaction text_ser text_markup doc_empty_gallery
             = Some [ReplaceWith 0 2 [empty_paragraph]]"
    by (simp add: appendTransaction_eq ops_at_def doc_empty_gallery_def node_ops_eq)
  have m: "(Branch ''paragraph'' [] [Text ''hi''], 2) \<in> set (descendants 0 doc_empty_gallery)
           \<and> 0 < nodeSize (Branch ''paragraph'' [] [Text ''hi''])
           \<and> type_name (Branch ''paragraph'' [] [Text ''hi'']) \<noteq> ''attachment-gallery''
           \<and> type_name (Branch ''paragraph'' [] [Text ''hi'']) \<noteq> ''attachment-figure''"
    by (simp add: doc_empty_gallery_def)
  note inst = reconciliation_touches_only_galleries_and_figures
         [of "Text ''hi''" "[]" 3 text_ser text_markup doc_empty_gallery]
  from inst t have 1: "handleGallery (Text ''hi'') [] 3 = (False, [])
     \<and> handleCaptions text_ser text_markup (Text ''hi'') [] 3 = (False, [])" by blast
  from inst a have "\<exists>g p. (g, p) \<in> set (descendants 0 doc_empty_gallery)
           \<and> (type_name g = ''attachment-gallery'' \<and> nodeSize g = 2
                \<and> ReplaceWith 0 2 [empty_paragraph] = ReplaceWith p (p + 2) [empty_paragraph]
              \<or> type_name g = ''attachment-figure''
                \<and> ReplaceWith 0 2 [empty_paragraph] = SetNodeMarkup p None
                        (AList.update ''caption'' (JStr (text_markup (text_ser (content g)))) (attrs g)))"
    by simp
  then have 2: "\<exists>g p. (g, p) \<in> set (descendants 0 doc_empty_gallery)
         \<and> type_name g = ''attachment-gallery'' \<and> nodeSize g = 2
         \<and> ReplaceWith 0 2 [empty_paragraph] = ReplaceWith p (p + 2) [empty_paragraph]"
    by blast
  from inst m have 3: "\<exists>doc' m'. commit text_ser text_markup doc_empty_gallery = Inr doc'
         \<and> (m', 2) \<in> set (descendants 0 doc')
         \<and> type_name m' = type_name (Branch ''paragraph'' [] [Text ''hi''])
         \<and> attrs m' = attrs (Branch ''paragraph'' [] [Text ''hi''])"
    by blast
  from t 1 a 2 m 3 show ?thesis by simp
qed

section \<open>Proofs: the insertion command\<close>

lemma ancestors_at_zero: "ancestors start 0 cs = []"
  by (induction start "0::nat" cs rule: ancestors.induct) auto

lemma ancestors_top: "node1 (ancestors start off cs) = Some n \<Longrightarrow> n \<in> set cs"
  by (induction start off cs rule: ancestors.induct) (auto simp: node1_def split: if_splits)

lemma ancestors_end:
  "off \<le> fragmentSize cs \<Longrightarrow> ancestors start off cs \<noteq> [] \<Longrightarrow>
     start + off \<le> snd (last (ancestors start off cs))
                     + fragmentSize (content (fst (last (ancestors start off cs))))
     \<and> snd (last (ancestors start off cs))
          + fragmentSize (content (fst (last (ancestors start off cs))))
        \<le> start + fragmentSize cs"
proof (induction start off cs rule: ancestors.induct)
  case (1 start off)
  then show ?case by simp
next
  case (2 start off s cs)
  show ?case
  proof (cases "length s \<le> off")
    case True
    with 2(2) have "off - length s \<le> fragmentSize cs" by simp
    moreover from True 2(3) have "ancestors (start + length s) (off - length s) cs \<noteq> []" by simp
    ultimately show ?thesis using 2(1) [OF True] True by simp
  next
    case False
    with 2(3) show ?thesis by simp
  qed
next
  case (3 start off t a cs)
  show ?case
  proof (cases "1 \<le> off")
    case True
    with 3(2) have "off - 1 \<le> fragmentSize cs" by simp
    moreover from True 3(3) have "ancestors (start + 1) (off - 1) cs \<noteq> []" by simp
    ultimately show ?thesis using 3(1) [OF True] True by simp
  next
    case False
    with 3(3) show ?thesis by simp
  qed
next
  case (4 start off t a ks cs)
  show ?case
  proof (cases "2 + fragmentSize ks \<le> off")
    case True
    with 4(3) have "off - (2 + fragmentSize ks) \<le> fragmentSize cs" by simp
    moreover from True 4(4)
    have "ancestors (start + (2 + fragmentSize ks)) (off - (2 + fragmentSize ks)) cs \<noteq> []"
      by simp
    ultimately have "start + (2 + fragmentSize ks) + (off - (2 + fragmentSize ks))
        \<le> snd (last (ancestors (start + (2 + fragmentSize ks)) (off - (2 + fragmentSize ks)) cs))
           + fragmentSize (content (fst (last
               (ancestors (start + (2 + fragmentSize ks)) (off - (2 + fragmentSize ks)) cs))))
      \<and> snd (last (ancestors (start + (2 + fragmentSize ks)) (off - (2 + fragmentSize ks)) cs))
           + fragmentSize (content (fst (last
               (ancestors (start + (2 + fragmentSize ks)) (off - (2 + fragmentSize ks)) cs))))
        \<le> start + (2 + fragmentSize ks) + fragmentSize cs"
      using 4(1) [OF True] by blast
    moreover from True have "start + (2 + fragmentSize ks) + (off - (2 + fragmentSize ks)) = start + off"
      by simp
    ultimately show ?thesis using True by (simp del: add_Suc add_Suc_right add_2_eq_Suc add_2_eq_Suc')
  next
    case False
    with 4(4) have nz: "off \<noteq> 0" by (auto split: if_splits)
    show ?thesis
    proof (cases "ancestors (start + 1) (off - 1) ks = []")
      case True
      with False nz show ?thesis by auto
    next
      case ne: False
      from False nz have "off - 1 \<le> fragmentSize ks" by simp
      from 4(2) [OF False nz this ne] False nz ne show ?thesis by auto
    qed
  qed
qed

lemma resolve_Inr:
  "resolve d pos = Inr path \<longleftrightarrow>
     0 \<le> pos \<and> pos \<le> int (fragmentSize d) \<and> path = ancestors 0 (nat pos) d"
  by (auto simp: resolve_def)

lemma context_at_Some:
  assumes "context_at d pos = Some c"
  shows "1 \<le> pos \<and> pos \<le> int (fragmentSize d) \<and> c \<in> set d
         \<and> resolve d pos = Inr (ancestors 0 (nat pos) d)
         \<and> node1 (ancestors 0 (nat pos) d) = Some c
         \<and> pos \<le> int (end_of d (ancestors 0 (nat pos) d))
         \<and> end_of d (ancestors 0 (nat pos) d) \<le> fragmentSize d"
proof -
  from assms have r: "0 \<le> pos" "pos \<le> int (fragmentSize d)"
    and n: "node1 (ancestors 0 (nat pos) d) = Some c"
    by (auto simp: context_at_def resolve_def split: if_splits)
  from n have ne: "ancestors 0 (nat pos) d \<noteq> []" by (auto simp: node1_def)
  with ancestors_at_zero [of 0 d] r have p: "1 \<le> pos" by (cases "pos = 0") auto
  from r have "nat pos \<le> fragmentSize d" by simp
  from ancestors_end [OF this ne] ne r
  have e: "pos \<le> int (end_of d (ancestors 0 (nat pos) d))"
          "end_of d (ancestors 0 (nat pos) d) \<le> fragmentSize d"
    by (auto simp: end_of_def split: list.splits)
  from r p n e ancestors_top [OF n] show ?thesis by (simp add: resolve_def)
qed


lemma setAttachment_no_context:
  assumes "context_at (state_doc st) (sel_anchor (state_selection st)) = None"
  shows "\<exists>e. setAttachment st tr0 opts d = thrown tr0 e"
proof (cases "resolve (state_doc st) (sel_anchor (state_selection st))")
  case (Inl e)
  then show ?thesis by (simp add: setAttachment_def thrown_def)
next
  case (Inr path)
  with assms have n: "node1 path = None" by (simp add: context_at_def)
  from Inr have "resolve (state_doc st)
       (if sel_anchor (state_selection st) - 2 < 0 then 0 else sel_anchor (state_selection st) - 2)
     = Inr (ancestors 0 (nat (if sel_anchor (state_selection st) - 2 < 0 then 0
                               else sel_anchor (state_selection st) - 2)) (state_doc st))"
    by (auto simp: resolve_def split: if_splits)
  with Inr n show ?thesis by (simp add: setAttachment_def thrown_def Let_def)
qed

lemma setAttachment_in_context:
  assumes "context_at (state_doc st) (sel_anchor (state_selection st)) = Some c"
  shows "setAttachment st tr0 opts d =
     (if opts \<noteq> [] \<and> ''attachment-figure'' \<notin> set (schema_nodes st) then thrown tr0 TypeError
      else if type_name c = ''attachment-gallery''
              \<or> is_gallery (context_at (state_doc st) (two_before (sel_anchor (state_selection st))))
      then (case tr_insert (state_doc st)
                   (int (end_of (state_doc st)
                          (ancestors 0 (nat (sel_anchor (state_selection st))) (state_doc st)))
                    - (if type_name c = ''attachment-gallery'' then 0 else 2))
                   (map create_figure opts) tr0 of
              Inl e \<Rightarrow> thrown tr0 e
            | Inr tr1 \<Rightarrow> returned_true d tr1)
      else if ''attachment-gallery'' \<notin> set (schema_nodes st) then thrown tr0 TypeError
      else if ''paragraph'' \<notin> set (schema_nodes st) then thrown tr0 TypeError
      else (case tr_replaceWith (state_doc st) (sel_from (state_selection st) - 1)
                   (sel_to (state_selection st))
                   [empty_paragraph, Branch ''attachment-gallery'' [] (map create_figure opts),
                    empty_paragraph] tr0 of
              Inl e \<Rightarrow> thrown tr0 e
            | Inr tr1 \<Rightarrow>
                returned_true d
                  (tr1 @ [SelectionToInsertionEnd (length (filter is_step tr1) - 1) (- 1)])))"
proof -
  let ?a = "sel_anchor (state_selection st)"
  let ?d = "state_doc st"
  from context_at_Some [OF assms]
  have r: "resolve ?d ?a = Inr (ancestors 0 (nat ?a) ?d)"
    and n: "node1 (ancestors 0 (nat ?a) ?d) = Some c"
    and b: "1 \<le> ?a" "?a \<le> int (fragmentSize ?d)" by simp_all
  from b have rb: "resolve ?d (if ?a - 2 < 0 then 0 else ?a - 2)
                     = Inr (ancestors 0 (nat (if ?a - 2 < 0 then 0 else ?a - 2)) ?d)"
    by (auto simp: resolve_def)
  have g: "is_gallery (context_at ?d (two_before ?a))
             = (case node1 (ancestors 0 (nat (if ?a - 2 < 0 then 0 else ?a - 2)) ?d) of
                  None \<Rightarrow> False | Some b \<Rightarrow> type_name b = ''attachment-gallery'')"
    using rb by (simp add: is_gallery_def context_at_def two_before_def)
  show ?thesis
    unfolding setAttachment_def Let_def r rb g
    by (simp add: n thrown_def returned_true_def split: sum.splits)
qed

lemma outside_gallery_request:
  assumes "context_at (state_doc st) (sel_anchor (state_selection st)) = Some c"
    and "type_name c \<noteq> ''attachment-gallery''"
    and "\<not> is_gallery (context_at (state_doc st) (two_before (sel_anchor (state_selection st))))"
    and "''attachment-figure'' \<in> set (schema_nodes st)"
    and "''attachment-gallery'' \<in> set (schema_nodes st)"
    and "''paragraph'' \<in> set (schema_nodes st)"
    and "1 \<le> sel_from (state_selection st)"
    and "sel_to (state_selection st) \<le> int (fragmentSize (state_doc st))"
  shows "setAttachment st tr0 opts d =
     returned_true d
       (tr0 @ [ReplaceWith (nat (sel_from (state_selection st) - 1)) (nat (sel_to (state_selection st)))
                 [empty_paragraph, Branch ''attachment-gallery'' [] (map create_figure opts),
                  empty_paragraph],
               SelectionToInsertionEnd (length (filter is_step tr0)) (- 1)])"
proof -
  from assms(7) have "sel_from (state_selection st) \<le> sel_to (state_selection st)"
    by (simp add: sel_from_def sel_to_def)
  with assms(7,8)
  have "tr_replaceWith (state_doc st) (sel_from (state_selection st) - 1)
          (sel_to (state_selection st))
          [empty_paragraph, Branch ''attachment-gallery'' [] (map create_figure opts),
           empty_paragraph] tr0
        = Inr (tr0 @ [ReplaceWith (nat (sel_from (state_selection st) - 1))
                        (nat (sel_to (state_selection st)))
                 [empty_paragraph, Branch ''attachment-gallery'' [] (map create_figure opts),
                  empty_paragraph]])"
    by (simp add: tr_replaceWith_def)
  with assms(2-6) show ?thesis
    unfolding setAttachment_in_context [OF assms(1)] by simp
qed

lemma thrown_simps [simp]:
  "outcome (thrown tr0 e) = Threw e" "result_tr (thrown tr0 e) = tr0"
  "dispatched (thrown tr0 e) = None"
  by (simp_all add: thrown_def)

lemma returned_true_simps [simp]:
  "outcome (returned_true d t) = Returned True" "result_tr (returned_true d t) = t"
  "dispatched (returned_true d t) = (if d then Some t else None)"
  by (simp_all add: returned_true_def)

lemma setAttachment_cases:
  "(\<exists>e. setAttachment st tr0 opts d = thrown tr0 e)
   \<or> (\<exists>t. setAttachment st tr0 opts d = returned_true d t)"
proof (cases "context_at (state_doc st) (sel_anchor (state_selection st))")
  case None
  from setAttachment_no_context [OF this] show ?thesis by blast
next
  case (Some c)
  show ?thesis
  proof (cases "opts \<noteq> [] \<and> ''attachment-figure'' \<notin> set (schema_nodes st)")
    case True
    then show ?thesis unfolding setAttachment_in_context [OF Some] by auto
  next
    case nf: False
    show ?thesis
    proof (cases "type_name c = ''attachment-gallery''
              \<or> is_gallery (context_at (state_doc st) (two_before (sel_anchor (state_selection st))))")
      case True
      with nf show ?thesis unfolding setAttachment_in_context [OF Some]
        by (auto split: sum.splits)
    next
      case False
      with nf show ?thesis unfolding setAttachment_in_context [OF Some]
        by (auto split: sum.splits)
    qed
  qed
qed


lemma setAttachment_returns_true:
  assumes c: "context_at (state_doc st) (sel_anchor (state_selection st)) = Some c"
    and schema: "''attachment-figure'' \<in> set (schema_nodes st)"
      "''attachment-gallery'' \<in> set (schema_nodes st)" "''paragraph'' \<in> set (schema_nodes st)"
    and h: "1 \<le> sel_head (state_selection st)"
      "sel_head (state_selection st) \<le> int (fragmentSize (state_doc st))"
  shows "\<exists>t. setAttachment st tr0 opts d = returned_true d t"
proof -
  let ?a = "sel_anchor (state_selection st)"
  let ?d = "state_doc st"
  let ?e = "end_of ?d (ancestors 0 (nat ?a) ?d)"
  from context_at_Some [OF c]
  have b: "1 \<le> ?a" "?a \<le> int (fragmentSize ?d)" "?a \<le> int ?e" "?e \<le> fragmentSize ?d"
    by simp_all
  show ?thesis
  proof (cases "type_name c = ''attachment-gallery''
              \<or> is_gallery (context_at ?d (two_before ?a))")
    case True
    have "0 \<le> int ?e - (if type_name c = ''attachment-gallery'' then 0 else 2)"
    proof (cases "type_name c = ''attachment-gallery''")
      case False
      with True obtain g where "context_at ?d (two_before ?a) = Some g"
        by (auto simp: is_gallery_def split: option.splits)
      from context_at_Some [OF this] have "1 \<le> two_before ?a" by simp
      with b show ?thesis by (simp add: two_before_def split: if_splits)
    qed simp
    with b have "tr_insert ?d (int ?e - (if type_name c = ''attachment-gallery'' then 0 else 2))
                   (map create_figure opts) tr0
                 = Inr (tr0 @ [ReplaceWith
                     (nat (int ?e - (if type_name c = ''attachment-gallery'' then 0 else 2)))
                     (nat (int ?e - (if type_name c = ''attachment-gallery'' then 0 else 2)))
                     (map create_figure opts)])"
      by (simp add: tr_insert_def tr_replaceWith_def)
    with True schema show ?thesis
      unfolding setAttachment_in_context [OF c] by auto
  next
    case False
    from b h have "1 \<le> sel_from (state_selection st)"
      "sel_to (state_selection st) \<le> int (fragmentSize ?d)"
      by (simp_all add: sel_from_def sel_to_def)
    from outside_gallery_request [OF c _ _ schema this, of tr0 opts d] False
    show ?thesis by blast
  qed
qed

text \<open>
  C3, evaluated where it fails. The cursor is at the start of a paragraph that holds the
  text \<^verbatim>\<open>a\<close> and follows a gallery: the preceding context is the gallery, the command
  inserts at the end of the paragraph's content minus 2, which is the position between
  the gallery and the paragraph, and the new figure becomes a top-level node after the
  gallery, not a child of it.
\<close>

theorem merge_after_gallery_misses_gallery:
  "setAttachment state_after_gallery [] [sample_attachment] True =
     returned_true True [ReplaceWith 4 4 [create_figure sample_attachment]]
   \<and> run [ReplaceWith 4 4 [create_figure sample_attachment]] (state_doc state_after_gallery) =
       Inr [Branch ''attachment-gallery'' [] [plain_figure],
            create_figure sample_attachment,
            Branch ''paragraph'' [] [Text ''a'']]"
  by (simp add: setAttachment_def state_after_gallery_def doc_gallery_then_text_def
        plain_figure_def resolve_def node1_def end_of_def tr_insert_def tr_replaceWith_def
        sample_schema_def sample_attachment_def returned_true_def Let_def)

text \<open>
  With an empty paragraph after the gallery the same call inserts at the end of the
  gallery's content, and the gallery gets the new figure as its last child.
\<close>

lemma merge_after_gallery_empty_paragraph:
  "setAttachment state_after_gallery_empty [] [sample_attachment] True =
     returned_true True [ReplaceWith 3 3 [create_figure sample_attachment]]
   \<and> run [ReplaceWith 3 3 [create_figure sample_attachment]] (state_doc state_after_gallery_empty) =
       Inr [Branch ''attachment-gallery'' [] [plain_figure, create_figure sample_attachment],
            Branch ''paragraph'' [] []]"
  by (simp add: setAttachment_def state_after_gallery_empty_def
        plain_figure_def resolve_def node1_def end_of_def tr_insert_def tr_replaceWith_def
        sample_schema_def sample_attachment_def returned_true_def Let_def inline_content_def)

text \<open>
  C4, evaluated where the code departs from it. A block quote holds a horizontal rule and
  a paragraph, and the paragraph is selected as a node: the selection's range is 2 to 5.
  Neither context is a gallery. The command asks to replace the range 1 to 5
  (\<^verbatim>\<open>currSelection.from - 1\<close>), not the selection's range: in the resulting document the
  horizontal rule, which lies before the selection, is gone. Replacing the selection's
  range, as the claim has it, keeps the horizontal rule.
\<close>

theorem insertion_replaces_before_selection:
  "sel_from (state_selection state_node_selected) = 2
   \<and> sel_to (state_selection state_node_selected) = 5
   \<and> \<not> is_gallery (context_at (state_doc state_node_selected)
                      (sel_anchor (state_selection state_node_selected)))
   \<and> \<not> is_gallery (context_at (state_doc state_node_selected)
                      (two_before (sel_anchor (state_selection state_node_selected))))
   \<and> setAttachment state_node_selected [] [sample_attachment] True =
       returned_true True
         [ReplaceWith 1 5
            [empty_paragraph,
             Branch ''attachment-gallery'' [] [create_figure sample_attachment],
             empty_paragraph],
          SelectionToInsertionEnd 0 (- 1)]
   \<and> run [ReplaceWith 1 5
            [empty_paragraph,
             Branch ''attachment-gallery'' [] [create_figure sample_attachment],
             empty_paragraph],
           SelectionToInsertionEnd 0 (- 1)]
         (state_doc state_node_selected) =
       Inr [Branch ''blockquote'' []
             [empty_paragraph,
              Branch ''attachment-gallery'' [] [create_figure sample_attachment],
              empty_paragraph]]
   \<and> run [ReplaceWith 2 5
            [empty_paragraph,
             Branch ''attachment-gallery'' [] [create_figure sample_attachment],
             empty_paragraph]]
         (state_doc state_node_selected) =
       Inr [Branch ''blockquote'' []
             [Leaf ''horizontalRule'' [],
              empty_paragraph,
              Branch ''attachment-gallery'' [] [create_figure sample_attachment],
              empty_paragraph]]"
  by (simp add: setAttachment_def state_node_selected_def sel_from_def sel_to_def
        context_at_def two_before_def is_gallery_def returned_true_def
        resolve_def node1_def end_of_def tr_insert_def tr_replaceWith_def
        sample_schema_def Let_def empty_paragraph_def)

text \<open>
  C5 as stated fails: under a schema without the gallery type the command throws a
  \<^verbatim>\<open>TypeError\<close> (it does not return false), and under a schema with all node types it
  throws a \<^verbatim>\<open>TypeError\<close> when the anchor is at depth 0 (the whole document selected).
\<close>

theorem setAttachment_throws:
  "setAttachment state_no_gallery_type [] [sample_attachment] True = thrown [] TypeError
   \<and> setAttachment state_all_selected [] [sample_attachment] True = thrown [] TypeError"
  by (simp add: setAttachment_def state_no_gallery_type_def state_all_selected_def
        doc_gallery_then_text_def thrown_def
        resolve_def node1_def end_of_def tr_insert_def tr_replaceWith_def
        sample_schema_def Let_def empty_paragraph_def)

text \<open>
  C5, amended. The command never returns false. When it throws, the transaction is as it
  was handed in and nothing is dispatched. With the anchor inside a top-level node, it
  throws a \<^verbatim>\<open>TypeError\<close> when the schema lacks the figure type and an attachment is
  given, and when the schema lacks the gallery or the paragraph type and neither the
  current nor the preceding context is a gallery; and with the three node types in the
  schema and the head of the
  selection in the document from position 1 on, it returns true and hands the
  transaction to \<^verbatim>\<open>dispatch\<close> when there is one.
\<close>

theorem setAttachment_never_returns_false:
  "outcome (setAttachment st tr0 opts d) \<noteq> Returned False
   \<and> (\<forall>e. outcome (setAttachment st tr0 opts d) = Threw e \<longrightarrow>
          result_tr (setAttachment st tr0 opts d) = tr0
          \<and> dispatched (setAttachment st tr0 opts d) = None)
   \<and> (context_at (state_doc st) (sel_anchor (state_selection st)) \<noteq> None
        \<and> opts \<noteq> [] \<and> ''attachment-figure'' \<notin> set (schema_nodes st) \<longrightarrow>
          outcome (setAttachment st tr0 opts d) = Threw TypeError)
   \<and> (context_at (state_doc st) (sel_anchor (state_selection st)) \<noteq> None
        \<and> (''attachment-gallery'' \<notin> set (schema_nodes st) \<or> ''paragraph'' \<notin> set (schema_nodes st))
        \<and> \<not> is_gallery (context_at (state_doc st) (sel_anchor (state_selection st)))
        \<and> \<not> is_gallery (context_at (state_doc st)
                           (two_before (sel_anchor (state_selection st)))) \<longrightarrow>
          outcome (setAttachment st tr0 opts d) = Threw TypeError)
   \<and> (context_at (state_doc st) (sel_anchor (state_selection st)) \<noteq> None
        \<and> ''attachment-figure'' \<in> set (schema_nodes st)
        \<and> ''attachment-gallery'' \<in> set (schema_nodes st)
        \<and> ''paragraph'' \<in> set (schema_nodes st)
        \<and> 1 \<le> sel_head (state_selection st)
        \<and> sel_head (state_selection st) \<le> int (fragmentSize (state_doc st)) \<longrightarrow>
          outcome (setAttachment st tr0 opts d) = Returned True
          \<and> dispatched (setAttachment st tr0 opts d)
              = (if d then Some (result_tr (setAttachment st tr0 opts d)) else None))"
proof (intro conjI allI impI)
  show "outcome (setAttachment st tr0 opts d) \<noteq> Returned False"
    using setAttachment_cases [of st tr0 opts d] by auto
next
  fix e assume "outcome (setAttachment st tr0 opts d) = Threw e"
  with setAttachment_cases [of st tr0 opts d]
  show "result_tr (setAttachment st tr0 opts d) = tr0"
    and "dispatched (setAttachment st tr0 opts d) = None" by auto
next
  assume "context_at (state_doc st) (sel_anchor (state_selection st)) \<noteq> None
        \<and> opts \<noteq> [] \<and> ''attachment-figure'' \<notin> set (schema_nodes st)"
  then obtain c where c: "context_at (state_doc st) (sel_anchor (state_selection st)) = Some c"
    and f: "opts \<noteq> [] \<and> ''attachment-figure'' \<notin> set (schema_nodes st)" by auto
  from f show "outcome (setAttachment st tr0 opts d) = Threw TypeError"
    unfolding setAttachment_in_context [OF c] by simp
next
  assume a: "context_at (state_doc st) (sel_anchor (state_selection st)) \<noteq> None
        \<and> (''attachment-gallery'' \<notin> set (schema_nodes st) \<or> ''paragraph'' \<notin> set (schema_nodes st))
        \<and> \<not> is_gallery (context_at (state_doc st) (sel_anchor (state_selection st)))
        \<and> \<not> is_gallery (context_at (state_doc st)
                           (two_before (sel_anchor (state_selection st))))"
  then obtain c where c: "context_at (state_doc st) (sel_anchor (state_selection st)) = Some c"
    by auto
  from c a have 1: "type_name c \<noteq> ''attachment-gallery''" by (simp add: is_gallery_def)
  from a have 2: "\<not> is_gallery (context_at (state_doc st)
                                  (two_before (sel_anchor (state_selection st))))"
    by simp
  from a 1 2 show "outcome (setAttachment st tr0 opts d) = Threw TypeError"
    unfolding setAttachment_in_context [OF c] by auto
next
  assume a: "context_at (state_doc st) (sel_anchor (state_selection st)) \<noteq> None
        \<and> ''attachment-figure'' \<in> set (schema_nodes st)
        \<and> ''attachment-gallery'' \<in> set (schema_nodes st)
        \<and> ''paragraph'' \<in> set (schema_nodes st)
        \<and> 1 \<le> sel_head (state_selection st)
        \<and> sel_head (state_selection st) \<le> int (fragmentSize (state_doc st))"
  then obtain c where c: "context_at (state_doc st) (sel_anchor (state_selection st)) = Some c"
    by auto
  from setAttachment_returns_true [OF c, of tr0 opts d] a
  obtain t where t: "setAttachment st tr0 opts d = returned_true d t" by blast
  then show "outcome (setAttachment st tr0 opts d) = Returned True" by simp
  show "dispatched (setAttachment st tr0 opts d)
              = (if d then Some (result_tr (setAttachment st tr0 opts d)) else None)"
    unfolding t by simp
qed

theorem setAttachment_never_returns_false_witness:
  "outcome (setAttachment state_no_gallery_type [] [sample_attachment] True) = Threw TypeError
   \<and> result_tr (setAttachment state_no_gallery_type [] [sample_attachment] True) = []
   \<and> dispatched (setAttachment state_no_gallery_type [] [sample_attachment] True) = None
   \<and> outcome (setAttachment state_no_figure_type [] [sample_attachment] True) = Threw TypeError
   \<and> outcome (setAttachment state_after_gallery_empty [] [sample_attachment] True) = Returned True
   \<and> dispatched (setAttachment state_after_gallery_empty [] [sample_attachment] True)
       = Some (result_tr (setAttachment state_after_gallery_empty [] [sample_attachment] True))"
proof -
  have 1: "context_at (state_doc state_no_gallery_type)
             (sel_anchor (state_selection state_no_gallery_type)) \<noteq> None
        \<and> (''attachment-gallery'' \<notin> set (schema_nodes state_no_gallery_type)
            \<or> ''paragraph'' \<notin> set (schema_nodes state_no_gallery_type))
        \<and> \<not> is_gallery (context_at (state_doc state_no_gallery_type)
                           (sel_anchor (state_selection state_no_gallery_type)))
        \<and> \<not> is_gallery (context_at (state_doc state_no_gallery_type)
                           (two_before (sel_anchor (state_selection state_no_gallery_type))))"
    by (simp add: state_no_gallery_type_def context_at_def resolve_def node1_def
          two_before_def is_gallery_def)
  have 2: "context_at (state_doc state_after_gallery_empty)
             (sel_anchor (state_selection state_after_gallery_empty)) \<noteq> None
        \<and> ''attachment-figure'' \<in> set (schema_nodes state_after_gallery_empty)
        \<and> ''attachment-gallery'' \<in> set (schema_nodes state_after_gallery_empty)
        \<and> ''paragraph'' \<in> set (schema_nodes state_after_gallery_empty)
        \<and> 1 \<le> sel_head (state_selection state_after_gallery_empty)
        \<and> sel_head (state_selection state_after_gallery_empty)
             \<le> int (fragmentSize (state_doc state_after_gallery_empty))"
    by (simp add: state_after_gallery_empty_def context_at_def resolve_def node1_def
          sample_schema_def plain_figure_def)
  have 3: "context_at (state_doc state_no_figure_type)
             (sel_anchor (state_selection state_no_figure_type)) \<noteq> None
        \<and> [sample_attachment] \<noteq> []
        \<and> ''attachment-figure'' \<notin> set (schema_nodes state_no_figure_type)"
    by (simp add: state_no_figure_type_def context_at_def resolve_def node1_def)
  from setAttachment_never_returns_false [of state_no_gallery_type "[]" "[sample_attachment]" True] 1
       setAttachment_never_returns_false [of state_after_gallery_empty "[]" "[sample_attachment]" True] 2
       setAttachment_never_returns_false [of state_no_figure_type "[]" "[sample_attachment]" True] 3
  show ?thesis by simp
qed

section \<open>Proofs: rendering and parsing\<close>

lemma js_get_filter_defined:
  "js_get (filter (\<lambda>kv. snd kv \<noteq> JUndefined) obj) k = js_get obj k" if "distinct (map fst obj)"
  using that
proof (induction obj)
  case Nil
  then show ?case by simp
next
  case (Cons kv obj)
  then have "map_of obj (fst kv) = None" by (cases kv) (auto simp: map_of_eq_None_iff)
  moreover have "map_of (filter (\<lambda>kv. snd kv \<noteq> JUndefined) obj) (fst kv) = None"
    using Cons.prems by (cases kv) (auto simp: map_of_eq_None_iff)
  ultimately show ?case using Cons by (cases kv) (auto simp: js_get_def)
qed

lemma rendered_attributes:
  "map_of (figure_attributes a) ''data-trix-attachment'' = Some (JSON_stringify (attachmentAttrs a))"
  "map_of (figure_attributes a) ''attachmentId'' = None"
  "map_of (figure_attributes a) ''progress'' = None"
  by (simp_all add: figure_attributes_def mergeAttributes_def HTMLAttributes_def dom_attr_def
        JSON_stringify_def)


lemma bind_result_simps [simp]:
  "bind_result (Inl e) f = Inl e" "bind_result (Inr x) f = f x"
  by (simp_all add: bind_result_def)

lemma rendered_element:
  "\<exists>cs. renderHTML hole node = Element ''figure'' (figure_attributes (attrs node)) cs
        \<and> query ''figcaption'' cs
            = Some (Element ''figcaption''
                 [(''class'', Str ''attachment__caption attachment__caption--edited'')] hole)"
  by (simp add: renderHTML_def Let_def)

lemma truthy_not_nullish: "js_truthy v \<Longrightarrow> \<not> nullish v"
  by (cases v) simp_all

lemma distinct_attachmentAttrs: "distinct (map fst (attachmentAttrs a))"
  by (simp add: attachmentAttrs_def)

lemma findAttribute_figure:
  "findAttribute (Element ''figure'' (figure_attributes a) cs) [] k
     = Inr (js_get (attachmentAttrs a) k)"
proof -
  have "JSON_parse (JSON_stringify (attachmentAttrs a))
          = Inr (filter (\<lambda>kv. snd kv \<noteq> JUndefined) (attachmentAttrs a))"
    by (simp add: JSON_stringify_def)
  moreover have "JSON_stringify (attachmentAttrs a) \<noteq> Str []" by (simp add: JSON_stringify_def)
  ultimately show ?thesis
    by (simp add: findAttribute_def closest_def trix_figure_def rendered_attributes
          js_get_filter_defined distinct_attachmentAttrs)
qed

lemma payload_fields:
  "js_get (attachmentAttrs a) ''caption'' = js_get a ''caption''"
  "js_get (attachmentAttrs a) ''contentType'' = js_get a ''contentType''"
  "js_get (attachmentAttrs a) ''content'' = js_get a ''content''"
  "js_get (attachmentAttrs a) ''filename'' = js_get a ''fileName''"
  "js_get (attachmentAttrs a) ''filesize'' = js_get a ''fileSize''"
  "js_get (attachmentAttrs a) ''height'' = js_get a ''height''"
  "js_get (attachmentAttrs a) ''width'' = js_get a ''width''"
  "js_get (attachmentAttrs a) ''sgid'' = js_get a ''sgid''"
  "js_get (attachmentAttrs a) ''url'' = js_get a ''url''"
  "js_get (attachmentAttrs a) ''src'' = js_get a ''src''"
  "js_get (attachmentAttrs a) ''content-type'' = JUndefined"
  "js_get (attachmentAttrs a) ''previewable'' = JUndefined"
  by (simp_all add: attachmentAttrs_def js_get_def)

lemma parse_rendered:
  "parseHTML_attrs ih (renderHTML hole node) [] =
     Inr [(''attachmentId'', JNull),
          (''caption'', if ih hole \<noteq> [] then JStr (ih hole)
                        else or_default (JStr '''') (js_get (attrs node) ''caption'')),
          (''progress'', JNum 100),
          (''sgid'', or_default (JStr '''') (js_get (attrs node) ''sgid'')),
          (''src'', or_default (JStr '''') (js_get (attrs node) ''src'')),
          (''height'', or_default (JStr '''') (js_get (attrs node) ''height'')),
          (''width'', or_default (JStr '''') (js_get (attrs node) ''width'')),
          (''contentType'', if js_truthy (js_get (attrs node) ''contentType'')
                            then js_get (attrs node) ''contentType''
                            else JStr ''application/octet-stream''),
          (''fileName'', or_default (JStr '''') (js_get (attrs node) ''fileName'')),
          (''fileSize'', or_default (JStr '''') (js_get (attrs node) ''fileSize'')),
          (''content'', if js_truthy (js_get (attrs node) ''content'')
                        then js_get (attrs node) ''content'' else JStr ''''),
          (''url'', or_default (JStr '''') (js_get (attrs node) ''url'')),
          (''previewable'', JBool False)]"
proof -
  from rendered_element [of hole node] obtain cs
    where el: "renderHTML hole node = Element ''figure'' (figure_attributes (attrs node)) cs"
      and fc: "query ''figcaption'' cs
            = Some (Element ''figcaption''
                 [(''class'', Str ''attachment__caption attachment__caption--edited'')] hole)"
    by blast
  let ?el = "Element ''figure'' (figure_attributes (attrs node)) cs"
  have json: "JSON_parse (JSON_stringify (attachmentAttrs (attrs node)))
          = Inr (filter (\<lambda>kv. snd kv \<noteq> JUndefined) (attachmentAttrs (attrs node)))"
    and ne: "JSON_stringify (attachmentAttrs (attrs node)) \<noteq> Str []"
    by (simp_all add: JSON_stringify_def)
  have 1: "own_attribute ?el ''attachmentId'' = Inr JNull" "own_attribute ?el ''progress'' = Inr JNull"
    by (simp_all add: own_attribute_def plain_attribute_def rendered_attributes)
  have 2: "parse_caption ih ?el [] =
             Inr (if ih hole \<noteq> [] then JStr (ih hole) else js_get (attrs node) ''caption'')"
    by (simp add: parse_caption_def fc findAttribute_figure payload_fields)
  have 3: "parse_contentType ?el [] =
             Inr (if js_truthy (js_get (attrs node) ''contentType'')
                  then js_get (attrs node) ''contentType'' else JStr ''application/octet-stream'')"
    using json ne
    by (simp add: parse_contentType_def findAttribute_figure payload_fields attribute_or_def
          rendered_attributes js_get_filter_defined distinct_attachmentAttrs)
  have 4: "parse_content ih ?el [] =
             Inr (if js_truthy (js_get (attrs node) ''content'')
                  then js_get (attrs node) ''content'' else JStr '''')"
    by (simp add: parse_content_def findAttribute_figure payload_fields closest_def)
  have 5: "parse_previewable ?el = Inr JUndefined"
    using json ne
    by (simp add: parse_previewable_def attribute_or_def rendered_attributes
          js_get_filter_defined distinct_attachmentAttrs payload_fields)
  show ?thesis
    unfolding el parseHTML_attrs_def
    by (simp add: 1 2 3 4 5 findAttribute_figure payload_fields or_default_def
          truthy_not_nullish)
qed

text \<open>
  C7 as stated fails, on three fields. A figure with the default attributes has the
  content type \<^verbatim>\<open>""\<close>, and parsing its rendering gives the content type
  \<^verbatim>\<open>application/octet-stream\<close>. A figure whose caption attribute is \<^verbatim>\<open>old\<close> and whose
  caption content is the text \<^verbatim>\<open>new\<close> is parsed with the caption \<^verbatim>\<open>new\<close>. A figure whose
  file name is \<^verbatim>\<open>null\<close> is parsed with the file name \<^verbatim>\<open>""\<close>.
\<close>

theorem figure_round_trip_fails:
  "parseHTML_attrs text_markup (renderHTML (text_ser (content plain_figure)) plain_figure) []
     = Inr (AList.update ''contentType'' (JStr ''application/octet-stream'') figure_defaults)
   \<and> js_get (attrs plain_figure) ''contentType'' = JStr ''''
   \<and> js_get (AList.update ''contentType'' (JStr ''application/octet-stream'') figure_defaults)
         ''contentType'' = JStr ''application/octet-stream''
   \<and> js_get (attrs stale_figure) ''caption'' = JStr ''old''
   \<and> (\<exists>a'. parseHTML_attrs text_markup
              (renderHTML (text_ser (content stale_figure)) stale_figure) [] = Inr a'
          \<and> js_get a' ''caption'' = JStr ''new'')
   \<and> js_get (attrs unnamed_figure) ''fileName'' = JNull
   \<and> (\<exists>a'. parseHTML_attrs text_markup
              (renderHTML (text_ser (content unnamed_figure)) unnamed_figure) [] = Inr a'
          \<and> js_get a' ''fileName'' = JStr '''')"
  unfolding parse_rendered
  by (simp add: plain_figure_def stale_figure_def unnamed_figure_def figure_defaults_def
        text_ser_def text_markup_def js_get_def or_default_def)

text \<open>
  C7, amended. For every attribute record D and every caption content, parsing the
  rendering of the figure that carries D succeeds, and gives
  \<^item> for each of fileName, fileSize, width, height, url, src and sgid the value it has
    in D when that is neither \<^verbatim>\<open>null\<close> nor \<^verbatim>\<open>undefined\<close>, and \<^verbatim>\<open>""\<close> otherwise;
  \<^item> for the caption the markup of the figure's caption content when that markup is
    not empty, and otherwise D's caption when that is neither \<^verbatim>\<open>null\<close> nor
    \<^verbatim>\<open>undefined\<close>, and \<^verbatim>\<open>""\<close> when it is: the caption is reconstructed when the markup is
    D's caption, and when the markup is empty and D's caption is neither \<^verbatim>\<open>null\<close> nor
    \<^verbatim>\<open>undefined\<close>;
  \<^item> for the content type the value it has in D when that is truthy (a non-empty
    string), and \<^verbatim>\<open>application/octet-stream\<close> otherwise.
\<close>

theorem figure_round_trip:
  "\<exists>a'. parseHTML_attrs ih (renderHTML (ser cs) (Branch ''attachment-figure'' D cs)) [] = Inr a'
     \<and> (\<forall>k\<in>{''fileName'', ''fileSize'', ''width'', ''height'', ''url'', ''src'', ''sgid''}.
           js_get a' k = (if nullish (js_get D k) then JStr '''' else js_get D k))
     \<and> js_get a' ''caption'' =
         (if ih (ser cs) \<noteq> [] then JStr (ih (ser cs))
          else if nullish (js_get D ''caption'') then JStr '''' else js_get D ''caption'')
     \<and> (js_get D ''caption'' = JStr (ih (ser cs))
          \<or> ih (ser cs) = [] \<and> \<not> nullish (js_get D ''caption'')
          \<longrightarrow> js_get a' ''caption'' = js_get D ''caption'')
     \<and> js_get a' ''contentType'' =
         (if js_truthy (js_get D ''contentType'') then js_get D ''contentType''
          else JStr ''application/octet-stream'')"
  unfolding parse_rendered
  by (auto simp: js_get_def or_default_def)

theorem figure_round_trip_witness:
  "(\<exists>a'. parseHTML_attrs text_markup
          (renderHTML (text_ser [Text ''new''])
             (Branch ''attachment-figure'' (attrs image_figure) [Text ''new''])) [] = Inr a'
     \<and> js_get a' ''fileName'' = JStr ''a.png''
     \<and> js_get a' ''fileSize'' = JNum 12
     \<and> js_get a' ''caption'' = JStr ''new''
     \<and> js_get a' ''contentType'' = JStr ''image/png'')
   \<and> (\<exists>a'. parseHTML_attrs text_markup
          (renderHTML (text_ser []) (Branch ''attachment-figure'' figure_defaults [])) [] = Inr a'
     \<and> js_get a' ''contentType'' = JStr ''application/octet-stream'')"
proof -
  have 1: "\<not> nullish (js_get (attrs image_figure) ''fileName'')"
    "\<not> nullish (js_get (attrs image_figure) ''fileSize'')"
    "js_get (attrs image_figure) ''caption'' = JStr (text_markup (text_ser [Text ''new'']))"
    "js_truthy (js_get (attrs image_figure) ''contentType'')"
    by (simp_all add: image_figure_def js_get_def text_markup_def text_ser_def)
  have 2: "js_get (attrs image_figure) ''fileName'' = JStr ''a.png''"
    "js_get (attrs image_figure) ''fileSize'' = JNum 12"
    "js_get (attrs image_figure) ''caption'' = JStr ''new''"
    "js_get (attrs image_figure) ''contentType'' = JStr ''image/png''"
    by (simp_all add: image_figure_def js_get_def)
  have 3: "\<not> js_truthy (js_get figure_defaults ''contentType'')"
    by (simp add: figure_defaults_def js_get_def)
  from figure_round_trip [of text_markup text_ser "[Text ''new'']" "attrs image_figure"]
  obtain a' where all:
    "parseHTML_attrs text_markup
          (renderHTML (text_ser [Text ''new''])
             (Branch ''attachment-figure'' (attrs image_figure) [Text ''new''])) [] = Inr a'
     \<and> (\<forall>k\<in>{''fileName'', ''fileSize'', ''width'', ''height'', ''url'', ''src'', ''sgid''}.
           js_get a' k = (if nullish (js_get (attrs image_figure) k) then JStr ''''
                          else js_get (attrs image_figure) k))
     \<and> js_get a' ''caption'' =
         (if text_markup (text_ser [Text ''new'']) \<noteq> []
          then JStr (text_markup (text_ser [Text ''new'']))
          else if nullish (js_get (attrs image_figure) ''caption'') then JStr ''''
               else js_get (attrs image_figure) ''caption'')
     \<and> (js_get (attrs image_figure) ''caption'' = JStr (text_markup (text_ser [Text ''new'']))
          \<or> text_markup (text_ser [Text ''new'']) = []
              \<and> \<not> nullish (js_get (attrs image_figure) ''caption'')
          \<longrightarrow> js_get a' ''caption'' = js_get (attrs image_figure) ''caption'')
     \<and> js_get a' ''contentType'' =
         (if js_truthy (js_get (attrs image_figure) ''contentType'')
          then js_get (attrs image_figure) ''contentType''
          else JStr ''application/octet-stream'')" ..
  then have p: "parseHTML_attrs text_markup
          (renderHTML (text_ser [Text ''new''])
             (Branch ''attachment-figure'' (attrs image_figure) [Text ''new''])) [] = Inr a'"
    and k: "js_get a' ''fileName'' = (if nullish (js_get (attrs image_figure) ''fileName'')
              then JStr '''' else js_get (attrs image_figure) ''fileName'')"
      "js_get a' ''fileSize'' = (if nullish (js_get (attrs image_figure) ''fileSize'')
              then JStr '''' else js_get (attrs image_figure) ''fileSize'')"
    and c: "js_get (attrs image_figure) ''caption'' = JStr (text_markup (text_ser [Text ''new'']))
          \<or> text_markup (text_ser [Text ''new'']) = []
              \<and> \<not> nullish (js_get (attrs image_figure) ''caption'')
          \<longrightarrow> js_get a' ''caption'' = js_get (attrs image_figure) ''caption''"
    and t: "js_get a' ''contentType'' =
         (if js_truthy (js_get (attrs image_figure) ''contentType'')
          then js_get (attrs image_figure) ''contentType''
          else JStr ''application/octet-stream'')"
    by simp_all
  from k 1 2 have "js_get a' ''fileName'' = JStr ''a.png''" "js_get a' ''fileSize'' = JNum 12"
    by simp_all
  moreover from c 1 2 have "js_get a' ''caption'' = JStr ''new''" by simp
  moreover from t 1 2 have "js_get a' ''contentType'' = JStr ''image/png''" by simp
  ultimately have first: "\<exists>a'. parseHTML_attrs text_markup
          (renderHTML (text_ser [Text ''new''])
             (Branch ''attachment-figure'' (attrs image_figure) [Text ''new''])) [] = Inr a'
     \<and> js_get a' ''fileName'' = JStr ''a.png''
     \<and> js_get a' ''fileSize'' = JNum 12
     \<and> js_get a' ''caption'' = JStr ''new''
     \<and> js_get a' ''contentType'' = JStr ''image/png''"
    using p by blast
  from figure_round_trip [of text_markup text_ser "[]" figure_defaults]
  obtain b' where
    "parseHTML_attrs text_markup
          (renderHTML (text_ser []) (Branch ''attachment-figure'' figure_defaults [])) [] = Inr b'
     \<and> (\<forall>k\<in>{''fileName'', ''fileSize'', ''width'', ''height'', ''url'', ''src'', ''sgid''}.
           js_get b' k = (if nullish (js_get figure_defaults k) then JStr ''''
                          else js_get figure_defaults k))
     \<and> js_get b' ''caption'' =
         (if text_markup (text_ser []) \<noteq> [] then JStr (text_markup (text_ser []))
          else if nullish (js_get figure_defaults ''caption'') then JStr ''''
               else js_get figure_defaults ''caption'')
     \<and> (js_get figure_defaults ''caption'' = JStr (text_markup (text_ser []))
          \<or> text_markup (text_ser []) = [] \<and> \<not> nullish (js_get figure_defaults ''caption'')
          \<longrightarrow> js_get b' ''caption'' = js_get figure_defaults ''caption'')
     \<and> js_get b' ''contentType'' =
         (if js_truthy (js_get figure_defaults ''contentType'')
          then js_get figure_defaults ''contentType''
          else JStr ''application/octet-stream'')" ..
  then have "parseHTML_attrs text_markup
          (renderHTML (text_ser []) (Branch ''attachment-figure'' figure_defaults [])) [] = Inr b'"
    and "js_get b' ''contentType'' =
         (if js_truthy (js_get figure_defaults ''contentType'')
          then js_get figure_defaults ''contentType''
          else JStr ''application/octet-stream'')"
    by simp_all
  with 3 have second: "\<exists>a'. parseHTML_attrs text_markup
          (renderHTML (text_ser []) (Branch ''attachment-figure'' figure_defaults [])) [] = Inr a'
     \<and> js_get a' ''contentType'' = JStr ''application/octet-stream''"
    by simp
  from first second show ?thesis by (rule conjI)
qed

text \<open>
  C9, evaluated where it fails. A file name without a dot-extension finds no match; the
  class derived from it is \<^verbatim>\<open>attachment--undefined\<close>, which is part of the class of the
  rendered figure.
\<close>

theorem toExtension_without_extension:
  "match_extension ''README'' = None
   \<and> toExtension (Some ''README'') = ''attachment--undefined''
   \<and> figure_class [(''fileName'', JStr ''README'')]
       = ''attachment attachment--file attachment--undefined''"
  by (simp add: toExtension_def figure_class_def options_class_def toType_def canPreview_def
        js_get_def)

text \<open>A file name with an extension gives the class of that extension, in lower case.\<close>

lemma toExtension_with_extension:
  "toExtension (Some ''Photo.PNG'') = ''attachment--png''"
  by code_simp

section \<open>Proofs: the write-back of image dimensions\<close>








end
